theory Spec2Isabelle
  imports Main "HOL-Library.Log_Nat"
begin

section \<open>The sealing worker of miner/worker.go\<close>

text \<open>
  A shallow embedding of the parts of \<^verbatim>\<open>miner/worker.go\<close> that the specification
  talks about. Go's fixed-width integers are integers with the wrap-around written out;
  pointers that may be nil are options; maps are partial functions; every collaborator
  that lives outside the file (chain, state database, consensus parameters) is a field
  of one of the records \<open>chain\<close>, \<open>statedb\<close> and \<open>params\<close>.
\<close>

subsection \<open>Machine integers\<close>

definition u64 :: "int \<Rightarrow> int" where
  \<comment> \<open>the value of a Go \<^verbatim>\<open>uint64\<close> after an operation whose exact result is the argument\<close>
  "u64 x = x mod 2 ^ 64"

definition i64 :: "int \<Rightarrow> int" where
  \<comment> \<open>the value of a Go \<^verbatim>\<open>int64\<close> after an operation whose exact result is the argument\<close>
  "i64 x = (x + 2 ^ 63) mod 2 ^ 64 - 2 ^ 63"

definition quot :: "int \<Rightarrow> int \<Rightarrow> int" where
  \<comment> \<open>Go's \<^verbatim>\<open>/\<close> on integers truncates towards zero\<close>
  "quot a b = sgn a * sgn b * (\<bar>a\<bar> div \<bar>b\<bar>)"

subsection \<open>Constants\<close>

definition second :: int where
  \<comment> \<open>\<^verbatim>\<open>time.Second\<close>: a \<^verbatim>\<open>time.Duration\<close> counts nanoseconds\<close>
  "second = 1000000000"

definition minRecommitInterval :: int where
  "minRecommitInterval = 1 * second"

definition maxRecommitInterval :: int where
  "maxRecommitInterval = 15 * second"

definition staleThreshold :: int where
  "staleThreshold = 7"

definition commitInterruptNone :: int where
  "commitInterruptNone = 0"

definition commitInterruptNewHead :: int where
  "commitInterruptNewHead = 1"

definition commitInterruptResubmit :: int where
  "commitInterruptResubmit = 2"

subsection \<open>IEEE 754 binary64\<close>

text \<open>
  Go's \<^verbatim>\<open>float64\<close>: the finite values are rationals, every operation rounds its exact
  result to the nearest value with a 53-bit significand (ties to even, gradual underflow
  below \<open>2\<^sup>-\<^sup>1\<^sup>0\<^sup>2\<^sup>2\<close>, overflow to an infinity from \<open>2\<^sup>1\<^sup>0\<^sup>2\<^sup>4\<close>), one operation at a time.
  The two zeros are identified, and a zero divisor counts as the positive zero.
\<close>

datatype f64 = Fin rat | PInf | NInf | NaN

definition rne :: "rat \<Rightarrow> int" where
  \<comment> \<open>round to the nearest integer, ties to even\<close>
  "rne x =
     (let f = \<lfloor>x\<rfloor>; d = x - of_int f
      in if d < 1 / 2 then f else if 1 / 2 < d then f + 1 else if even f then f else f + 1)"

definition ilog2 :: "rat \<Rightarrow> int" where
  \<comment> \<open>for \<open>0 < x\<close>, the exponent \<open>k\<close> with \<open>2\<^sup>k \<le> x < 2\<^sup>k\<^sup>+\<^sup>1\<close>\<close>
  "ilog2 x =
     (let d = bitlen (fst (quotient_of x)) - bitlen (snd (quotient_of x))
      in if 2 powi d \<le> x then d else d - 1)"

definition f64_exponent :: "rat \<Rightarrow> int" where
  \<comment> \<open>the exponent of the last bit of the significand: 52 below the leading bit, and
      never less than that of the subnormal numbers\<close>
  "f64_exponent x = max (ilog2 \<bar>x\<bar> - 52) (- 1074)"

definition f64_significand :: "rat \<Rightarrow> int" where
  "f64_significand x = rne (\<bar>x\<bar> / 2 powi f64_exponent x)"

definition round_f64 :: "rat \<Rightarrow> f64" where
  \<comment> \<open>the result overflows when the rounded magnitude reaches \<open>2\<^sup>1\<^sup>0\<^sup>2\<^sup>4 = 2\<^sup>5\<^sup>3 \<sqdot> 2\<^sup>9\<^sup>7\<^sup>1\<close>\<close>
  "round_f64 x =
     (if x = 0 then Fin 0
      else if 971 < f64_exponent x \<or> (f64_exponent x = 971 \<and> 2 ^ 53 \<le> f64_significand x)
      then (if 0 < x then PInf else NInf)
      else Fin (sgn x * (of_int (f64_significand x) * 2 powi f64_exponent x)))"

definition f64_of_int :: "int \<Rightarrow> f64" where
  \<comment> \<open>the conversion \<^verbatim>\<open>float64(i)\<close> of an integer\<close>
  "f64_of_int i = round_f64 (of_int i)"

fun fneg :: "f64 \<Rightarrow> f64" where
  "fneg (Fin a) = Fin (- a)"
| "fneg PInf = NInf"
| "fneg NInf = PInf"
| "fneg NaN = NaN"

fun fadd :: "f64 \<Rightarrow> f64 \<Rightarrow> f64" where
  "fadd NaN _ = NaN"
| "fadd _ NaN = NaN"
| "fadd PInf NInf = NaN"
| "fadd NInf PInf = NaN"
| "fadd PInf _ = PInf"
| "fadd _ PInf = PInf"
| "fadd NInf _ = NInf"
| "fadd _ NInf = NInf"
| "fadd (Fin a) (Fin b) = round_f64 (a + b)"

definition fsub :: "f64 \<Rightarrow> f64 \<Rightarrow> f64" where
  "fsub x y = fadd x (fneg y)"

fun fsign_inf :: "rat \<Rightarrow> f64" where
  "fsign_inf s = (if s = 0 then NaN else if 0 < s then PInf else NInf)"

fun fmul :: "f64 \<Rightarrow> f64 \<Rightarrow> f64" where
  "fmul NaN _ = NaN"
| "fmul _ NaN = NaN"
| "fmul PInf PInf = PInf"
| "fmul PInf NInf = NInf"
| "fmul NInf PInf = NInf"
| "fmul NInf NInf = PInf"
| "fmul PInf (Fin b) = fsign_inf b"
| "fmul NInf (Fin b) = fsign_inf (- b)"
| "fmul (Fin a) PInf = fsign_inf a"
| "fmul (Fin a) NInf = fsign_inf (- a)"
| "fmul (Fin a) (Fin b) = round_f64 (a * b)"

fun fdiv :: "f64 \<Rightarrow> f64 \<Rightarrow> f64" where
  "fdiv NaN _ = NaN"
| "fdiv _ NaN = NaN"
| "fdiv PInf PInf = NaN"
| "fdiv PInf NInf = NaN"
| "fdiv NInf PInf = NaN"
| "fdiv NInf NInf = NaN"
| "fdiv PInf (Fin b) = (if 0 \<le> b then PInf else NInf)"
| "fdiv NInf (Fin b) = (if 0 \<le> b then NInf else PInf)"
| "fdiv (Fin a) PInf = Fin 0"
| "fdiv (Fin a) NInf = Fin 0"
| "fdiv (Fin a) (Fin b) = (if b = 0 then fsign_inf a else round_f64 (a / b))"

fun flt :: "f64 \<Rightarrow> f64 \<Rightarrow> bool" where
  \<comment> \<open>\<^verbatim>\<open>x < y\<close>: false as soon as one side is not a number\<close>
  "flt NaN _ = False"
| "flt _ NaN = False"
| "flt (Fin a) (Fin b) = (a < b)"
| "flt NInf NInf = False"
| "flt NInf _ = True"
| "flt _ NInf = False"
| "flt PInf _ = False"
| "flt _ PInf = True"

fun fle :: "f64 \<Rightarrow> f64 \<Rightarrow> bool" where
  \<comment> \<open>\<^verbatim>\<open>x <= y\<close>\<close>
  "fle NaN _ = False"
| "fle _ NaN = False"
| "fle (Fin a) (Fin b) = (a \<le> b)"
| "fle NInf _ = True"
| "fle _ PInf = True"
| "fle _ NInf = False"
| "fle PInf _ = False"

definition fgt :: "f64 \<Rightarrow> f64 \<Rightarrow> bool" where
  "fgt x y = flt y x"

definition int64_of_f64 :: "(f64 \<Rightarrow> int) \<Rightarrow> f64 \<Rightarrow> int" where
  \<comment> \<open>the conversion \<^verbatim>\<open>int64(x)\<close>: the fraction is dropped; where the result does not
      fit, Go leaves the value to the implementation, here the parameter \<open>impl\<close>\<close>
  "int64_of_f64 impl x =
     (case x of
        Fin a \<Rightarrow>
          (let t = (if 0 \<le> a then \<lfloor>a\<rfloor> else \<lceil>a\<rceil>)
           in if - (2 ^ 63) \<le> t \<and> t < 2 ^ 63 then t else impl x)
      | _ \<Rightarrow> impl x)"

subsection \<open>Data\<close>

type_synonym hash = nat
type_synonym address = nat

type_synonym gotime = "int \<times> int"
  \<comment> \<open>a \<^verbatim>\<open>time.Time\<close>: seconds since the epoch, and nanoseconds within the second\<close>

record header =
  ParentHash :: hash
  Root :: hash
  Coinbase :: address
  Number :: int
  GasLimit :: int
  GasUsed :: int
  Time :: int
  Fees :: int
  Extra :: "nat list"
  MixDigest :: hash
  BaseFee :: "int option"

record log_entry =
  LogData :: "nat list"
  LogBlockHash :: hash

record receipt =
  ReceiptGasUsed :: int
  Logs :: "log_entry list"
  ReceiptBlockHash :: hash

record transaction =
  TxHash :: hash
  Protected :: bool

record block =
  BlockHeader :: header
  BlockTransactions :: "transaction list"
  BlockUncles :: "header list"

text \<open>
  \<^verbatim>\<open>errors.Is(err, target)\<close> walks the chain of wrapped errors: an error is the list
  of the sentinels on its chain, outermost first, and the nil error is \<open>None\<close>.
\<close>

datatype errkind =
    ErrGasLimitReached
  | ErrNonceTooLow
  | ErrNonceTooHigh
  | ErrTxTypeNotSupported
  | ErrMessage string

type_synonym error = "errkind list"

definition errors_New :: "string \<Rightarrow> error" where
  "errors_New msg = [ErrMessage msg]"

definition errors_Is :: "error option \<Rightarrow> errkind option \<Rightarrow> bool" where
  "errors_Is err target =
     (case err of
        None \<Rightarrow> target = None
      | Some chain \<Rightarrow> (case target of None \<Rightarrow> False | Some k \<Rightarrow> k \<in> set chain))"

record 's environment =
  signer :: nat
  state :: 's
  ancestors :: "hash set"
  family :: "hash set"
  tcount :: int
  gasPool :: "int option"
  coinbase :: address
  header :: header
  txs :: "transaction list"
  receipts :: "receipt list"
  uncles :: "hash \<rightharpoonup> header"
  till :: "gotime option"
  blockInterval :: int
  blockGasLimit :: "int option"
  baseFeeMaxChangeRate :: int
  gasTargetPercentage :: int

record 's task =
  taskReceipts :: "receipt list"
  taskState :: 's
  taskBlock :: block

record intervalAdjust =
  ratio :: f64
  inc :: bool

subsection \<open>Collaborators\<close>

text \<open>
  What the worker calls outside \<^verbatim>\<open>miner/worker.go\<close>. The record \<open>chain\<close> holds the
  block chain, the chain configuration, the consensus engine and the Wemix governance
  (\<open>IsPoW\<close> is \<^verbatim>\<open>wemixminer.IsPoW()\<close>, \<open>HeaderHash\<close> is \<^verbatim>\<open>(*types.Header).Hash\<close>,
  \<open>EnginePrepare\<close> is \<^verbatim>\<open>w.engine.Prepare\<close>); \<open>statedb\<close> holds the operations of
  \<^verbatim>\<open>state.StateDB\<close> and \<^verbatim>\<open>core.ApplyTransaction\<close>; \<open>params\<close> holds the constants of
  package \<^verbatim>\<open>params\<close>; \<open>clock\<close> is one reading of \<^verbatim>\<open>time.Now()\<close>.
\<close>

record 's chain =
  IsPoW :: bool
  GetTd :: "hash \<Rightarrow> int \<Rightarrow> int option"
  TerminalTotalDifficulty :: "int option"
  HeaderHash :: "header \<Rightarrow> hash"
  GetHeaderByNumber :: "int \<Rightarrow> header option"
  CurrentBlock :: block
  GetBlockByHash :: "hash \<Rightarrow> block option"
  GetBlocksFromHash :: "hash \<Rightarrow> int \<Rightarrow> block list"
  GetBlockBuildParameters :: "int \<Rightarrow> int \<times> int \<times> int \<times> int"
  CalcGasLimit :: "int \<Rightarrow> int \<Rightarrow> int"
  CalcBaseFee :: "header \<Rightarrow> int"
  IsLondon :: "int \<Rightarrow> bool"
  IsEIP155 :: "int \<Rightarrow> bool"
  MakeSigner :: "int \<Rightarrow> nat"
  EnginePrepare :: "header \<Rightarrow> error + header"
  StateAt :: "hash \<Rightarrow> error + 's"
  StateAtBlock :: "block \<Rightarrow> error + 's"

record 's apply_result =
  arResult :: "error + receipt"
  arState :: 's
  arGas :: int
  arGasUsed :: int
  arFees :: int

record 's statedb =
  Snapshot :: "'s \<Rightarrow> int \<times> 's"
  RevertToSnapshot :: "int \<Rightarrow> 's \<Rightarrow> 's"
  Prepare :: "hash \<Rightarrow> int \<Rightarrow> 's \<Rightarrow> 's"
  StartPrefetcher :: "'s \<Rightarrow> 's"
  Copy :: "'s \<Rightarrow> 's"
  ApplyTransaction ::
    "address \<Rightarrow> int option \<Rightarrow> 's \<Rightarrow> header \<Rightarrow> transaction \<Rightarrow> 's apply_result"

record params =
  TxGas :: int
  MaxTxsPerBlock :: int
  BlockMinBuildTxs :: int
  BlockTimeAdjBlocks :: int
  BlockTimeAdjMultiple :: int
  BlockMinBuildTime :: int
  BlockTrailTime :: int
  ElasticityMultiplier :: int
  PrefetchCount :: int

record clock =
  Unix :: int
  UnixNano :: int

definition NumberU64 :: "block \<Rightarrow> int" where
  \<comment> \<open>\<^verbatim>\<open>b.header.Number.Uint64()\<close>\<close>
  "NumberU64 b = u64 (Number (BlockHeader b))"

subsection \<open>Uncle admission\<close>

definition isTTDReached :: "'s chain \<Rightarrow> header \<Rightarrow> bool" where
  "isTTDReached w h =
     (case (GetTd w (ParentHash h) (u64 (u64 (Number h) - 1)), TerminalTotalDifficulty w) of
        (Some td, Some ttd) \<Rightarrow> ttd \<le> td
      | _ \<Rightarrow> False)"

definition commitUncle ::
  "'s chain \<Rightarrow> 's environment \<Rightarrow> header \<Rightarrow> error option \<times> 's environment" where
  "commitUncle w env uncle =
     (if \<not> IsPoW w then (Some (errors_New ''We do not call uncles''), env)
      else if isTTDReached w (header env)
        then (Some (errors_New ''ignore uncle for beacon block''), env)
      else let hash = HeaderHash w uncle in
        if uncles env hash \<noteq> None then (Some (errors_New ''uncle not unique''), env)
        else if ParentHash (header env) = ParentHash uncle
          then (Some (errors_New ''uncle is sibling''), env)
        else if ParentHash uncle \<notin> ancestors env
          then (Some (errors_New ''uncle's parent unknown''), env)
        else if hash \<in> family env
          then (Some (errors_New ''uncle already included''), env)
        else (None, env\<lparr>uncles := (uncles env)(hash \<mapsto> uncle)\<rparr>))"

subsection \<open>Stale pending tasks\<close>

definition clearPending :: "int \<Rightarrow> (hash \<rightharpoonup> 's task) \<Rightarrow> (hash \<rightharpoonup> 's task)" where
  \<comment> \<open>the closure of both work loops: every entry is visited once, and deleted or kept\<close>
  "clearPending number pendingTasks =
     (\<lambda>h. case pendingTasks h of
             None \<Rightarrow> None
           | Some t \<Rightarrow>
               if u64 (NumberU64 (taskBlock t) + staleThreshold) \<le> number then None
               else Some t)"

subsection \<open>The pacing controller\<close>

definition rem :: "int \<Rightarrow> int \<Rightarrow> int" where
  \<comment> \<open>Go's \<^verbatim>\<open>%\<close> on integers: the remainder of the truncating division\<close>
  "rem a b = a - b * quot a b"

definition time_Unix :: "int \<Rightarrow> int \<Rightarrow> gotime" where
  \<comment> \<open>\<^verbatim>\<open>time.Unix(sec, nsec)\<close> of the standard library, which brings \<open>nsec\<close> into range\<close>
  "time_Unix sec nsec =
     (if nsec < 0 \<or> 1000000000 \<le> nsec then
        (let n = quot nsec 1000000000;
             sec1 = i64 (sec + n);
             nsec1 = i64 (nsec - i64 (n * 1000000000))
         in if nsec1 < 0 then (i64 (sec1 - 1), i64 (nsec1 + 1000000000)) else (sec1, nsec1))
      else (sec, nsec))"

definition maxPeekBack :: int where
  "maxPeekBack = 86400"

definition tooBehindMultiple :: int where
  "tooBehindMultiple = 2"

definition timeIt_check ::
  "'s chain \<Rightarrow> int \<Rightarrow> int \<Rightarrow> int \<Rightarrow> int \<Rightarrow> int \<times> int \<times> int \<times> int" where
  \<comment> \<open>the closure \<^verbatim>\<open>check\<close>, with the variables it captures: \<open>num\<close>, \<open>nowInSeconds\<close>
      and \<^verbatim>\<open>blockInterval\<close> (here \<open>intervalSec\<close>); the result is \<open>(offset, height, stamp, dt)\<close>\<close>
  "timeIt_check w num nowInSeconds intervalSec heightToPeek0 =
     (let heightToPeek = (if maxPeekBack < heightToPeek0 then maxPeekBack else heightToPeek0);
          n = i64 (i64 num - heightToPeek)
      in if n < 0 then (0, 0, 0, 0)
         else case GetHeaderByNumber w (u64 n) of
           None \<Rightarrow> (0, u64 n, 0, 0)
         | Some h \<Rightarrow>
             (let stamp = Time h;
                  dt = i64 (nowInSeconds - i64 stamp)
              in if i64 (heightToPeek * intervalSec) < dt
                    \<and> dt < i64 (i64 (tooBehindMultiple * heightToPeek) * intervalSec)
                 then (- 1, u64 n, stamp, dt)
                 else if dt < i64 (heightToPeek * intervalSec)
                 then (1, u64 n, stamp, dt)
                 else (0, u64 n, stamp, dt)))"

function timeIt_rounds ::
  "'s chain \<Rightarrow> params \<Rightarrow> int \<Rightarrow> int \<Rightarrow> int \<Rightarrow> int \<Rightarrow> int \<Rightarrow> int \<Rightarrow> int \<Rightarrow> int \<times> int" where
  \<comment> \<open>the loop over \<open>i\<close>; it carries \<open>adjBlocks\<close>, \<open>ahead\<close> and the last \<open>offset\<close>,
      and ends with \<open>(offset, ahead)\<close>\<close>
  "timeIt_rounds w p num nowInSeconds intervalSec i adjBlocks ahead offset =
     (if i < BlockTimeAdjMultiple p then
        (case timeIt_check w num nowInSeconds intervalSec adjBlocks of
           (offset1, height, stamp, dt) \<Rightarrow>
             if offset1 < 0 then (offset1, ahead)
             else timeIt_rounds w p num nowInSeconds intervalSec (i + 1)
                    (i64 (adjBlocks * 10)) (if 0 < offset1 then ahead + 1 else ahead) offset1)
      else (offset, ahead))"
  by pat_completeness auto
termination
  by (relation "measure (\<lambda>(w, p, num, now, bi, i, adj, ahead, offset).
                  nat (BlockTimeAdjMultiple p - i))") auto

declare timeIt_rounds.simps [simp del]

definition timeIt_till :: "params \<Rightarrow> block \<Rightarrow> int \<Rightarrow> int \<Rightarrow> int \<Rightarrow> int \<Rightarrow> gotime" where
  \<comment> \<open>the \<^verbatim>\<open>switch offset\<close> that ends \<^verbatim>\<open>timeIt\<close>\<close>
  "timeIt_till p parent nowInSeconds nowInMilliSeconds intervalSec offset =
     (if offset = - 1 then
        (let tms0 = i64 (nowInMilliSeconds + BlockMinBuildTime p);
             tms = (if quot tms0 1000 \<le> i64 (Time (BlockHeader parent))
                    then i64 (i64 (nowInSeconds + 1) * 1000) else tms0)
         in time_Unix (quot tms 1000) (i64 (rem tms 1000 * 1000000)))
      else if offset = 1 then
        (let tms0 = i64 (i64 (nowInMilliSeconds + i64 (intervalSec * 1000))
                      + BlockMinBuildTime p);
             tms = (if i64 (nowInSeconds + intervalSec) < quot tms0 1000
                    then i64 (i64 (i64 (i64 (nowInSeconds + intervalSec) + 1) * 1000)
                           - BlockTrailTime p)
                    else tms0)
         in time_Unix (quot tms 1000) (i64 (rem tms 1000 * 1000000)))
      else
        (let tms0 = i64 (i64 (nowInMilliSeconds + i64 (intervalSec * 1000))
                      - BlockTrailTime p);
             tms = (if i64 (nowInSeconds + 1) < quot tms0 1000
                    then i64 (i64 (i64 (nowInSeconds + 2) * 1000) - BlockTrailTime p)
                    else tms0)
         in time_Unix (quot tms 1000) (i64 (rem tms 1000 * 1000000))))"

definition timeIt_paced :: "'s chain \<Rightarrow> params \<Rightarrow> clock \<Rightarrow> int \<Rightarrow> int \<times> gotime" where
  \<comment> \<open>\<^verbatim>\<open>timeIt\<close> from the declaration of \<open>maxPeekBack\<close> on; \<open>intervalSec\<close> is
      \<^verbatim>\<open>blockInterval\<close> after the division, in seconds\<close>
  "timeIt_paced w p now intervalSec =
     (let parent = CurrentBlock w;
          num = Number (BlockHeader parent) + 1;
          nowInSeconds = Unix now;
          nowInMilliSeconds = quot (UnixNano now) 1000000;
          offset0 = fst (timeIt_check w num nowInSeconds intervalSec 1);
          (offset1, ahead) =
            (if 0 \<le> offset0
             then timeIt_rounds w p num nowInSeconds intervalSec 0 (BlockTimeAdjBlocks p)
                    (if 0 < offset0 then 1 else 0) offset0
             else (offset0, 0));
          offset = (if 0 \<le> offset1 \<and> 0 < ahead then 1 else offset1);
          timestamp0 = u64 nowInSeconds;
          timestamp = (if timestamp0 < NumberU64 parent then NumberU64 parent else timestamp0)
      in (timestamp, timeIt_till p parent nowInSeconds nowInMilliSeconds intervalSec offset))"

definition timeIt :: "'s chain \<Rightarrow> params \<Rightarrow> clock \<Rightarrow> int \<Rightarrow> int \<times> gotime" where
  "timeIt w p now intervalMs =
     (let intervalQ = quot intervalMs 1000;
          intervalSec = (if intervalQ \<le> 0 then 1 else intervalQ)
      in timeIt_paced w p now intervalSec)"

subsection \<open>The transaction committer\<close>

definition commitTransaction ::
  "'s statedb \<Rightarrow> 's environment \<Rightarrow> transaction
     \<Rightarrow> (log_entry list \<times> error option) \<times> 's environment" where
  \<comment> \<open>\<^verbatim>\<open>ApplyTransaction\<close> works on the state, the gas pool, \<^verbatim>\<open>header.GasUsed\<close> and
      \<^verbatim>\<open>header.Fees\<close> through pointers: what it leaves there is in its result\<close>
  "commitTransaction db env tx =
     (let (snap, s1) = Snapshot db (state env);
          r = ApplyTransaction db (coinbase env) (gasPool env) s1 (header env) tx;
          env1 = env\<lparr>state := arState r,
                     gasPool := map_option (\<lambda>_. arGas r) (gasPool env),
                     header := (header env)\<lparr>GasUsed := arGasUsed r, Fees := arFees r\<rparr>\<rparr>
      in case arResult r of
           Inl err \<Rightarrow> (([], Some err), env1\<lparr>state := RevertToSnapshot db snap (arState r)\<rparr>)
         | Inr receipt \<Rightarrow>
             ((Logs receipt, None),
              env1\<lparr>txs := txs env1 @ [tx], receipts := receipts env1 @ [receipt]\<rparr>))"

text \<open>
  Modelled from the spec: the iterators \<^verbatim>\<open>types.TransactionsByPriceAndNonce\<close> and
  \<^verbatim>\<open>TxOrderer\<close> are not in the file. The specification gives them three navigation
  primitives, \<^verbatim>\<open>Peek\<close>, \<^verbatim>\<open>Pop\<close> (drop the head account's remaining transactions) and
  \<^verbatim>\<open>Shift\<close> (advance within the head account), over the pending transactions of the
  pool, which the committer never changes. An iterator is what \<^verbatim>\<open>Peek\<close> answers
  together with the iterators that \<^verbatim>\<open>Pop\<close> and \<^verbatim>\<open>Shift\<close> leave; \<open>Done\<close> is the iterator
  whose \<^verbatim>\<open>Peek\<close> is nil.
\<close>

datatype txs_iter = Done | Next transaction txs_iter txs_iter

datatype advance = PopHead | ShiftHead

datatype exit = Return bool | Break | Panic

datatype outcome = Returned bool | Panicked

text \<open>
  What the loop works on: the environment, the map \<^verbatim>\<open>committedTxs\<close> (nil or shared
  with the caller), \<^verbatim>\<open>coalescedLogs\<close>, the number of atomic loads of the interrupt made
  so far, the number of iterations begun so far, and what has been sent on
  \<^verbatim>\<open>w.resubmitAdjustCh\<close> and \<^verbatim>\<open>w.pendingLogsFeed\<close>.
\<close>

record 's loop_state =
  envOf :: "'s environment"
  committedTxs :: "(hash \<rightharpoonup> transaction) option"
  coalescedLogs :: "log_entry list"
  loads :: nat
  iteration :: nat
  resubmitAdjustCh :: "intervalAdjust list"
  pendingLogsFeed :: "log_entry list list"

definition atomic_LoadInt32 :: "(nat \<Rightarrow> int) \<Rightarrow> 's loop_state \<Rightarrow> int \<times> 's loop_state" where
  \<comment> \<open>the interrupt is written by another goroutine: \<open>cell k\<close> is what the \<open>k\<close>-th load
      of it returns\<close>
  "atomic_LoadInt32 cell st = (cell (loads st), st\<lparr>loads := Suc (loads st)\<rparr>)"

definition len_map :: "('k \<rightharpoonup> 'v) option \<Rightarrow> int" where
  \<comment> \<open>\<^verbatim>\<open>len\<close> of a map, 0 for the nil map\<close>
  "len_map m = (case m of None \<Rightarrow> 0 | Some f \<Rightarrow> int (card (dom f)))"

definition interrupt_check ::
  "(nat \<Rightarrow> int) option \<Rightarrow> int \<Rightarrow> 's loop_state \<Rightarrow> exit option \<times> 's loop_state" where
  \<comment> \<open>the first statement of the loop body; \<open>None\<close> when the loop goes on\<close>
  "interrupt_check interrupt gasLimit st =
     (case interrupt of
        None \<Rightarrow> (None, st)
      | Some cell \<Rightarrow>
          (let (v1, st1) = atomic_LoadInt32 cell st
           in if v1 \<noteq> commitInterruptNone then
                (let (v2, st2) = atomic_LoadInt32 cell st1
                 in if v2 = commitInterruptResubmit then
                      (case gasPool (envOf st2) of
                         None \<Rightarrow> (Some Panic, st2)
                       | Some gas \<Rightarrow>
                           (let ratio0 = fdiv (f64_of_int (u64 (gasLimit - gas)))
                                           (f64_of_int gasLimit);
                                ratio1 = (if flt ratio0 (round_f64 (1 / 10))
                                          then round_f64 (1 / 10) else ratio0);
                                st3 = st2\<lparr>resubmitAdjustCh := resubmitAdjustCh st2
                                             @ [\<lparr>ratio = ratio1, inc = True\<rparr>]\<rparr>;
                                (v3, st4) = atomic_LoadInt32 cell st3
                            in (Some (Return (v3 = commitInterruptNewHead)), st4)))
                    else
                      (let (v3, st4) = atomic_LoadInt32 cell st2
                       in (Some (Return (v3 = commitInterruptNewHead)), st4)))
              else (None, st1)))"

definition apply_and_dispatch ::
  "'s statedb \<Rightarrow> transaction \<Rightarrow> 's loop_state \<Rightarrow> advance \<times> 's loop_state" where
  \<comment> \<open>from \<^verbatim>\<open>env.state.Prepare\<close> to the end of the \<^verbatim>\<open>switch\<close> on the error\<close>
  "apply_and_dispatch db tx st =
     (let env0 = envOf st;
          env1 = env0\<lparr>state := Prepare db (TxHash tx) (tcount env0) (state env0)\<rparr>;
          ((logs, err), env2) = commitTransaction db env1 tx
      in if errors_Is err (Some ErrGasLimitReached) then (PopHead, st\<lparr>envOf := env2\<rparr>)
         else if errors_Is err (Some ErrNonceTooLow) then (ShiftHead, st\<lparr>envOf := env2\<rparr>)
         else if errors_Is err (Some ErrNonceTooHigh) then (PopHead, st\<lparr>envOf := env2\<rparr>)
         else if errors_Is err None then
           (ShiftHead, st\<lparr>envOf := env2\<lparr>tcount := i64 (tcount env2 + 1)\<rparr>,
                           coalescedLogs := coalescedLogs st @ logs\<rparr>)
         else if errors_Is err (Some ErrTxTypeNotSupported) then (PopHead, st\<lparr>envOf := env2\<rparr>)
         else (ShiftHead, st\<lparr>envOf := env2\<rparr>))"

definition mark_committed :: "transaction \<Rightarrow> 's loop_state \<Rightarrow> 's loop_state" where
  \<comment> \<open>\<^verbatim>\<open>committedTxs[tx.Hash()] = tx\<close> unless the map is nil; the iteration is counted\<close>
  "mark_committed tx st =
     st\<lparr>committedTxs := map_option (\<lambda>m. m(TxHash tx \<mapsto> tx)) (committedTxs st),
        iteration := Suc (iteration st)\<rparr>"

fun commitTransactions_loop ::
  "'s chain \<Rightarrow> 's statedb \<Rightarrow> params \<Rightarrow> (nat \<Rightarrow> int) option \<Rightarrow> gotime option \<Rightarrow> (nat \<Rightarrow> bool)
     \<Rightarrow> int \<Rightarrow> txs_iter \<Rightarrow> 's loop_state \<Rightarrow> exit \<times> 's loop_state" where
  \<comment> \<open>the \<^verbatim>\<open>for\<close> loop of \<^verbatim>\<open>commitTransactions\<close>; \<open>expired k\<close> is what
      \<^verbatim>\<open>time.Until(*env.till) <= 0\<close> gives in iteration \<open>k\<close>\<close>
  "commitTransactions_loop w db p interrupt tstart expired gasLimit it st =
     (case interrupt_check interrupt gasLimit st of
        (Some ex, st1) \<Rightarrow> (ex, st1)
      | (None, st1) \<Rightarrow>
          (case gasPool (envOf st1) of
             None \<Rightarrow> (Panic, st1)
           | Some gas \<Rightarrow>
               if gas < TxGas p then (Break, st1)
               else
                 (case it of
                    Done \<Rightarrow> (Break, st1)
                  | Next tx popped shifted \<Rightarrow>
                      if 0 < MaxTxsPerBlock p \<and> MaxTxsPerBlock p \<le> tcount (envOf st1)
                      then (Break, st1)
                      else if tstart \<noteq> None \<and> till (envOf st1) \<noteq> None
                              \<and> expired (iteration st1)
                              \<and> BlockMinBuildTxs p \<le> len_map (committedTxs st1)
                      then (Break, st1)
                      else
                        (let st2 = mark_committed tx st1
                         in if Protected tx \<and> \<not> IsEIP155 w (Number (header (envOf st2)))
                            then commitTransactions_loop w db p interrupt tstart expired
                                   gasLimit popped st2
                            else
                              (case apply_and_dispatch db tx st2 of
                                 (PopHead, st3) \<Rightarrow>
                                   commitTransactions_loop w db p interrupt tstart expired
                                     gasLimit popped st3
                               | (ShiftHead, st3) \<Rightarrow>
                                   commitTransactions_loop w db p interrupt tstart expired
                                     gasLimit shifted st3)))))"

declare commitTransactions_loop.simps [simp del]

definition after_loop ::
  "bool \<Rightarrow> (nat \<Rightarrow> int) option \<Rightarrow> exit \<times> 's loop_state \<Rightarrow> outcome \<times> 's loop_state" where
  \<comment> \<open>what follows the loop, shared by both committers: \<open>running\<close> is \<^verbatim>\<open>w.isRunning()\<close>\<close>
  "after_loop running interrupt r =
     (case r of
        (Return b, st) \<Rightarrow> (Returned b, st)
      | (Panic, st) \<Rightarrow> (Panicked, st)
      | (Break, st) \<Rightarrow>
          (let st1 = (if \<not> running \<and> 0 < length (coalescedLogs st)
                      then st\<lparr>pendingLogsFeed := pendingLogsFeed st
                                 @ [map (\<lambda>l. l) (coalescedLogs st)]\<rparr>
                      else st);
               st2 = (if interrupt \<noteq> None
                      then st1\<lparr>resubmitAdjustCh := resubmitAdjustCh st1
                                  @ [\<lparr>ratio = Fin 0, inc = False\<rparr>]\<rparr>
                      else st1)
           in (Returned False, st2)))"

definition enter_loop ::
  "'s environment \<Rightarrow> (hash \<rightharpoonup> transaction) option \<Rightarrow> 's loop_state" where
  \<comment> \<open>what precedes the loop: the gas pool is created when it is nil\<close>
  "enter_loop env committed =
     \<lparr>envOf = (if gasPool env = None then env\<lparr>gasPool := Some (GasLimit (header env))\<rparr>
               else env),
      committedTxs = committed, coalescedLogs = [], loads = 0, iteration = 0,
      resubmitAdjustCh = [], pendingLogsFeed = []\<rparr>"

definition commitTransactions ::
  "'s chain \<Rightarrow> 's statedb \<Rightarrow> params \<Rightarrow> bool \<Rightarrow> 's environment \<Rightarrow> txs_iter
     \<Rightarrow> (nat \<Rightarrow> int) option \<Rightarrow> gotime option \<Rightarrow> (nat \<Rightarrow> bool)
     \<Rightarrow> (hash \<rightharpoonup> transaction) option \<Rightarrow> outcome \<times> 's loop_state" where
  "commitTransactions w db p running env it interrupt tstart expired committed =
     after_loop running interrupt
       (commitTransactions_loop w db p interrupt tstart expired (GasLimit (header env)) it
          (enter_loop env committed))"

fun commitTransactionsSimple_loop ::
  "'s chain \<Rightarrow> 's statedb \<Rightarrow> params \<Rightarrow> (nat \<Rightarrow> int) option \<Rightarrow> gotime option \<Rightarrow> (nat \<Rightarrow> bool)
     \<Rightarrow> int \<Rightarrow> txs_iter \<Rightarrow> 's loop_state \<Rightarrow> exit \<times> 's loop_state" where
  \<comment> \<open>the \<^verbatim>\<open>for\<close> loop of \<^verbatim>\<open>commitTransactionsSimple\<close>; the orderer keeps the committed
      transactions itself, so \<open>committedTxs\<close> is never nil here\<close>
  "commitTransactionsSimple_loop w db p interrupt tstart expired gasLimit it st =
     (case interrupt_check interrupt gasLimit st of
        (Some ex, st1) \<Rightarrow> (ex, st1)
      | (None, st1) \<Rightarrow>
          (case gasPool (envOf st1) of
             None \<Rightarrow> (Panic, st1)
           | Some gas \<Rightarrow>
               if gas < TxGas p then (Break, st1)
               else
                 (case it of
                    Done \<Rightarrow> (Break, st1)
                  | Next tx popped shifted \<Rightarrow>
                      if tstart \<noteq> None \<and> till (envOf st1) \<noteq> None
                         \<and> expired (iteration st1)
                         \<and> BlockMinBuildTxs p \<le> len_map (committedTxs st1)
                      then (Break, st1)
                      else
                        (let st2 = mark_committed tx st1
                         in if Protected tx \<and> \<not> IsEIP155 w (Number (header (envOf st2)))
                            then commitTransactionsSimple_loop w db p interrupt tstart expired
                                   gasLimit popped st2
                            else
                              (case apply_and_dispatch db tx st2 of
                                 (PopHead, st3) \<Rightarrow>
                                   commitTransactionsSimple_loop w db p interrupt tstart expired
                                     gasLimit popped st3
                               | (ShiftHead, st3) \<Rightarrow>
                                   commitTransactionsSimple_loop w db p interrupt tstart expired
                                     gasLimit shifted st3)))))"

declare commitTransactionsSimple_loop.simps [simp del]

definition commitTransactionsSimple ::
  "'s chain \<Rightarrow> 's statedb \<Rightarrow> params \<Rightarrow> ('s environment \<Rightarrow> txs_iter \<Rightarrow> int \<Rightarrow> 's)
     \<Rightarrow> bool \<Rightarrow> 's environment \<Rightarrow> txs_iter \<times> (hash \<rightharpoonup> transaction)
     \<Rightarrow> (nat \<Rightarrow> int) option \<Rightarrow> gotime option \<Rightarrow> (nat \<Rightarrow> bool) \<Rightarrow> outcome \<times> 's loop_state" where
  \<comment> \<open>a \<^verbatim>\<open>TxOrderer\<close> is an iterator with the map of the committed transactions.
      Modelled from the spec: \<^verbatim>\<open>tx_prefetch\<close> is in another file of the package; the
      look-ahead of \<^verbatim>\<open>PrefetchCount\<close> transactions warms the state database, and gives
      the state it leaves\<close>
  "commitTransactionsSimple w db p tx_prefetch running env orderer interrupt tstart expired =
     (let gasLimit = GasLimit (header env);
          st0 = enter_loop env (Some (snd orderer));
          st1 = st0\<lparr>envOf := (envOf st0)\<lparr>state :=
                  tx_prefetch (envOf st0) (fst orderer) (PrefetchCount p)\<rparr>\<rparr>
      in after_loop running interrupt
           (commitTransactionsSimple_loop w db p interrupt tstart expired gasLimit
              (fst orderer) st1))"

subsection \<open>Environments: copies and construction\<close>

definition copyReceipts :: "receipt list \<Rightarrow> receipt list" where
  "copyReceipts rs = map (\<lambda>l. l) rs"

definition CopyHeader :: "header \<Rightarrow> header" where
  \<comment> \<open>\<^verbatim>\<open>types.CopyHeader\<close>; headers are values here, and the copy of a value is the value\<close>
  "CopyHeader h = h"

definition environment_copy :: "'s statedb \<Rightarrow> 's environment \<Rightarrow> 's environment" where
  \<comment> \<open>\<^verbatim>\<open>(env *environment).copy\<close>: the fields it does not name get Go's zero value\<close>
  "environment_copy db env =
     \<lparr>signer = signer env, state = Copy db (state env), ancestors = ancestors env,
      family = family env, tcount = tcount env, gasPool = gasPool env,
      coinbase = coinbase env, header = CopyHeader (header env),
      txs = take (length (txs env)) (txs env), receipts = copyReceipts (receipts env),
      uncles = uncles env, till = None, blockInterval = 0, blockGasLimit = None,
      baseFeeMaxChangeRate = 0, gasTargetPercentage = 0\<rparr>"

record config =
  GasCeil :: int
  extra :: "nat list"

record generateParams =
  timestamp :: int
  forceTime :: bool
  parentHash :: hash
  gpCoinbase :: address
  random :: hash
  noUncle :: bool
  noExtra :: bool

definition makeEnv ::
  "'s chain \<Rightarrow> 's statedb \<Rightarrow> block \<Rightarrow> header \<Rightarrow> address \<Rightarrow> error + 's environment" where
  "makeEnv w db parent h cb =
     (case (case StateAt w (Root (BlockHeader parent)) of
              Inl err \<Rightarrow> StateAtBlock w parent
            | Inr s \<Rightarrow> Inr s) of
        Inl err \<Rightarrow> Inl err
      | Inr s \<Rightarrow>
          (let env = \<lparr>signer = MakeSigner w (Number h), state = StartPrefetcher db s,
                      ancestors = {}, family = {}, tcount = 0, gasPool = None,
                      coinbase = cb, header = h, txs = [], receipts = [],
                      uncles = Map.empty, till = None, blockInterval = 0,
                      blockGasLimit = None, baseFeeMaxChangeRate = 0,
                      gasTargetPercentage = 0\<rparr>
           in Inr (fold (\<lambda>ancestor e.
                      e\<lparr>family := insert (HeaderHash w (BlockHeader ancestor))
                                     (fold (\<lambda>uncle f. insert (HeaderHash w uncle) f)
                                        (BlockUncles ancestor) (family e)),
                        ancestors := insert (HeaderHash w (BlockHeader ancestor))
                                       (ancestors e)\<rparr>)
                    (GetBlocksFromHash w (HeaderHash w (BlockHeader parent)) 7)
                    (env\<lparr>tcount := 0\<rparr>))))"

fun commitUncles :: "'s chain \<Rightarrow> 's environment \<Rightarrow> block list \<Rightarrow> 's environment" where
  \<comment> \<open>the closure \<^verbatim>\<open>commitUncles\<close> of \<^verbatim>\<open>prepareWork\<close>, over the blocks of the map in the
      order in which \<^verbatim>\<open>range\<close> yields them\<close>
  "commitUncles w env [] = env"
| "commitUncles w env (uncle # blocks) =
     (if card (dom (uncles env)) = 2 then env
      else commitUncles w (snd (commitUncle w env (BlockHeader uncle))) blocks)"

definition prepareWork_header ::
  "'s chain \<Rightarrow> params \<Rightarrow> config \<Rightarrow> generateParams \<Rightarrow> block \<Rightarrow> int \<Rightarrow> int \<Rightarrow> header" where
  \<comment> \<open>the header of \<^verbatim>\<open>prepareWork\<close> as it is handed to \<^verbatim>\<open>w.engine.Prepare\<close>; \<open>stamp\<close> is
      the final \<^verbatim>\<open>timestamp\<close>, \<open>gasLimit\<close> the \<^verbatim>\<open>blockGasLimit\<close> of the governance\<close>
  "prepareWork_header w p cfg genParams parent stamp gasLimit =
     (let h0 = \<lparr>ParentHash = HeaderHash w (BlockHeader parent), Root = 0,
                 Coinbase = gpCoinbase genParams, Number = Number (BlockHeader parent) + 1,
                 GasLimit = CalcGasLimit w (GasLimit (BlockHeader parent)) (GasCeil cfg),
                 GasUsed = 0, Time = stamp, Fees = 0, Extra = [], MixDigest = 0,
                 BaseFee = None\<rparr>;
          h1 = (if \<not> noExtra genParams \<and> length (extra cfg) \<noteq> 0
                then h0\<lparr>Extra := extra cfg\<rparr> else h0);
          h2 = (if \<not> IsPoW w
                then h1\<lparr>GasLimit := CalcGasLimit w (GasLimit (BlockHeader parent))
                                       (u64 gasLimit)\<rparr>
                else h1);
          h3 = (if random genParams \<noteq> 0 then h2\<lparr>MixDigest := random genParams\<rparr> else h2)
      in if IsLondon w (Number h3) then
           (let h = h3\<lparr>BaseFee := Some (CalcBaseFee w (BlockHeader parent))\<rparr>
            in if \<not> IsLondon w (Number (BlockHeader parent)) then
                 (if IsPoW w
                  then h\<lparr>GasLimit :=
                           CalcGasLimit w
                             (u64 (GasLimit (BlockHeader parent) * ElasticityMultiplier p))
                             (GasCeil cfg)\<rparr>
                  else h\<lparr>GasLimit := GasLimit (BlockHeader parent)\<rparr>)
               else h)
         else h3)"

definition prepareWork_finish ::
  "'s chain \<Rightarrow> generateParams \<Rightarrow> gotime \<Rightarrow> int \<times> int \<times> int \<times> int \<Rightarrow> block list \<Rightarrow> block list
     \<Rightarrow> 's environment \<Rightarrow> 's environment" where
  \<comment> \<open>\<^verbatim>\<open>prepareWork\<close> after \<^verbatim>\<open>makeEnv\<close>: the Wemix parameters, then the uncles\<close>
  "prepareWork_finish w genParams deadline build localUncles remoteUncles env0 =
     (case build of
        (interval, gasLimit, maxChangeRate, targetPercentage) \<Rightarrow>
          (let env1 = (if \<not> IsPoW w then env0\<lparr>till := Some deadline\<rparr> else env0);
               env2 = env1\<lparr>blockInterval := interval, blockGasLimit := Some gasLimit,
                           baseFeeMaxChangeRate := maxChangeRate,
                           gasTargetPercentage := targetPercentage\<rparr>
           in if \<not> noUncle genParams
              then commitUncles w (commitUncles w env2 localUncles) remoteUncles
              else env2))"

definition prepareWork ::
  "'s chain \<Rightarrow> 's statedb \<Rightarrow> params \<Rightarrow> clock \<Rightarrow> config \<Rightarrow> generateParams
     \<Rightarrow> block list \<Rightarrow> block list \<Rightarrow> error + 's environment" where
  \<comment> \<open>\<open>localUncles\<close> and \<open>remoteUncles\<close> are the worker's maps, as \<^verbatim>\<open>range\<close> yields them\<close>
  "prepareWork w db p now cfg genParams localUncles remoteUncles =
     (case (if parentHash genParams \<noteq> 0 then GetBlockByHash w (parentHash genParams)
            else Some (CurrentBlock w)) of
        None \<Rightarrow> Inl (errors_New ''missing parent'')
      | Some parent \<Rightarrow>
          (let build = GetBlockBuildParameters w (Number (BlockHeader parent))
           in if IsPoW w \<and> timestamp genParams \<le> Time (BlockHeader parent)
                 \<and> forceTime genParams
              then Inl (errors_New ''invalid timestamp'')
              else
                (let timestamp1 =
                       (if IsPoW w \<and> timestamp genParams \<le> Time (BlockHeader parent)
                        then u64 (Time (BlockHeader parent) + 1) else timestamp genParams);
                     paced = timeIt w p now (fst build);
                     timestamp2 = (if \<not> IsPoW w then fst paced else timestamp1)
                 in case EnginePrepare w
                           (prepareWork_header w p cfg genParams parent timestamp2
                              (fst (snd build))) of
                      Inl err \<Rightarrow> Inl err
                    | Inr h \<Rightarrow>
                        (case makeEnv w db parent h (gpCoinbase genParams) of
                           Inl err \<Rightarrow> Inl err
                         | Inr env0 \<Rightarrow>
                             Inr (prepareWork_finish w genParams (snd paced) build
                                    localUncles remoteUncles env0)))))"

subsection \<open>The published snapshot\<close>

text \<open>
  The readers of the snapshot get pointers. State databases live in a store, a list
  whose indices are the references; blocks are immutable values.

  Modelled from the spec: \<^verbatim>\<open>(*state.StateDB).Copy\<close> is not in the file. The
  specification calls its result a deep copy: a new object, at a reference not in use,
  whose content is the content of the original.
\<close>

record worker_snapshot =
  snapshotBlock :: "block option"
  snapshotReceipts :: "receipt list"
  snapshotState :: "nat option"

definition StateDB_Copy :: "'s list \<Rightarrow> nat \<Rightarrow> nat \<times> 's list" where
  "StateDB_Copy store r = (length store, store @ [store ! r])"

definition pending ::
  "worker_snapshot \<Rightarrow> 's list \<Rightarrow> (block option \<times> nat option) \<times> 's list" where
  "pending w store =
     (case snapshotState w of
        None \<Rightarrow> ((None, None), store)
      | Some r \<Rightarrow>
          (let (r1, store1) = StateDB_Copy store r
           in ((snapshotBlock w, Some r1), store1)))"

definition published ::
  "worker_snapshot \<Rightarrow> 's list \<Rightarrow> block option \<times> receipt list \<times> 's option" where
  \<comment> \<open>the triple a reader of the worker sees: the block, the receipts, and the content of
      the state the worker points to\<close>
  "published w store =
     (snapshotBlock w, snapshotReceipts w, map_option (\<lambda>r. store ! r) (snapshotState w))"

subsection \<open>The resubmit controller\<close>

definition intervalAdjustRatio :: f64 where
  "intervalAdjustRatio = round_f64 (1 / 10)"

definition intervalAdjustBias :: f64 where
  "intervalAdjustBias = round_f64 (200 * 1000 * 1000)"

definition recalcRecommit :: "(f64 \<Rightarrow> int) \<Rightarrow> int \<Rightarrow> int \<Rightarrow> f64 \<Rightarrow> bool \<Rightarrow> int" where
  \<comment> \<open>\<^verbatim>\<open>1-intervalAdjustRatio\<close> is a constant expression: it is exact, and rounded once\<close>
  "recalcRecommit impl minRecommit prev target incr =
     (let prevF = f64_of_int prev
      in if incr then
           (let next0 = fadd (fmul prevF (round_f64 (1 - 1 / 10)))
                          (fmul intervalAdjustRatio (fadd target intervalAdjustBias));
                max = f64_of_int maxRecommitInterval;
                next = (if fgt next0 max then max else next0)
            in int64_of_f64 impl next)
         else
           (let next0 = fadd (fmul prevF (round_f64 (1 - 1 / 10)))
                          (fmul intervalAdjustRatio (fsub target intervalAdjustBias));
                min = f64_of_int minRecommit;
                next = (if flt next0 min then min else next0)
            in int64_of_f64 impl next))"

definition on_resubmitInterval :: "int \<Rightarrow> int \<times> int \<Rightarrow> int \<times> int" where
  \<comment> \<open>\<^verbatim>\<open>case interval := <-w.resubmitIntervalCh\<close> of \<^verbatim>\<open>newWorkLoop\<close>, on the pair
      \<open>(minRecommit, recommit)\<close>\<close>
  "on_resubmitInterval interval0 s =
     (let interval = (if interval0 < minRecommitInterval then minRecommitInterval
                      else interval0)
      in (interval, interval))"

definition on_resubmitAdjust :: "(f64 \<Rightarrow> int) \<Rightarrow> intervalAdjust \<Rightarrow> int \<times> int \<Rightarrow> int \<times> int" where
  \<comment> \<open>\<^verbatim>\<open>case adjust := <-w.resubmitAdjustCh\<close> of \<^verbatim>\<open>newWorkLoop\<close>, on the pair
      \<open>(minRecommit, recommit)\<close>\<close>
  "on_resubmitAdjust impl adjust s =
     (case s of
        (minRecommit, recommit) \<Rightarrow>
          if inc adjust then
            (let target = fdiv (f64_of_int recommit) (ratio adjust)
             in (minRecommit, recalcRecommit impl minRecommit recommit target True))
          else (minRecommit,
                recalcRecommit impl minRecommit recommit (f64_of_int minRecommit) False))"

subsection \<open>Notions of the specification\<close>

text \<open>
  The contract of the state database that the committer relies on: reverting to a
  snapshot undoes whatever \<^verbatim>\<open>ApplyTransaction\<close> did to the state since the snapshot.
\<close>

definition journaled :: "'s statedb \<Rightarrow> bool" where
  "journaled db \<longleftrightarrow>
     (\<forall>s cb gp h tx.
        RevertToSnapshot db (fst (Snapshot db s))
          (arState (ApplyTransaction db cb gp (snd (Snapshot db s)) h tx)) = s)"

definition applied :: "'s statedb \<Rightarrow> 's environment \<Rightarrow> transaction \<Rightarrow> 's apply_result" where
  \<comment> \<open>what the call of \<^verbatim>\<open>ApplyTransaction\<close> inside \<^verbatim>\<open>commitTransaction\<close> gives\<close>
  "applied db env tx =
     ApplyTransaction db (coinbase env) (gasPool env) (snd (Snapshot db (state env)))
       (header env) tx"

text \<open>
  The loop makes one load of the interrupt per iteration that goes on, and three in the
  iteration that leaves at the interrupt check. So the loop was left at the check exactly
  when the third load from the end did not give \<^verbatim>\<open>commitInterruptNone\<close>, and the value
  that decided the result is the last load.
\<close>

definition zero_so_far :: "(nat \<Rightarrow> int) option \<Rightarrow> 's loop_state \<Rightarrow> bool" where
  "zero_so_far interrupt st \<longleftrightarrow>
     (case interrupt of
        None \<Rightarrow> True
      | Some cell \<Rightarrow> list_all (\<lambda>k. cell k = commitInterruptNone) [0..<loads st])"

definition left_at_check :: "(nat \<Rightarrow> int) option \<Rightarrow> 's loop_state \<Rightarrow> bool" where
  "left_at_check interrupt st \<longleftrightarrow>
     (case interrupt of
        None \<Rightarrow> False
      | Some cell \<Rightarrow> 3 \<le> loads st \<and> cell (loads st - 3) \<noteq> commitInterruptNone)"

definition last_load :: "(nat \<Rightarrow> int) option \<Rightarrow> 's loop_state \<Rightarrow> int" where
  "last_load interrupt st =
     (case interrupt of None \<Rightarrow> commitInterruptNone | Some cell \<Rightarrow> cell (loads st - 1))"

definition exit_ok :: "(nat \<Rightarrow> int) option \<Rightarrow> exit \<times> 's loop_state \<Rightarrow> bool" where
  "exit_ok interrupt r =
     (case fst r of
        Return b \<Rightarrow> left_at_check interrupt (snd r)
                    \<and> b = (last_load interrupt (snd r) = commitInterruptNewHead)
      | Break \<Rightarrow> zero_so_far interrupt (snd r)
      | Panic \<Rightarrow> False)"

text \<open>
  The environments the worker can hold: built by \<^verbatim>\<open>prepareWork\<close> or \<^verbatim>\<open>makeEnv\<close>, and
  changed by \<^verbatim>\<open>commitTransaction\<close>, \<^verbatim>\<open>copy\<close>, \<^verbatim>\<open>commitUncle\<close> and \<^verbatim>\<open>commitTransactions\<close>.
\<close>

inductive reachable :: "'s chain \<Rightarrow> 's statedb \<Rightarrow> params \<Rightarrow> 's environment \<Rightarrow> bool"
  for w :: "'s chain" and db :: "'s statedb" and p :: params where
  prepared: "prepareWork w db p now cfg genParams localUncles remoteUncles = Inr env
             \<Longrightarrow> reachable w db p env"
| made: "makeEnv w db parent h cb = Inr env \<Longrightarrow> reachable w db p env"
| applied_tx: "reachable w db p env \<Longrightarrow> reachable w db p (snd (commitTransaction db env tx))"
| copied: "reachable w db p env \<Longrightarrow> reachable w db p (environment_copy db env)"
| uncle: "reachable w db p env \<Longrightarrow> reachable w db p (snd (commitUncle w env u))"
| filled: "reachable w db p env \<Longrightarrow>
           reachable w db p
             (envOf (snd (commitTransactions w db p running env it interrupt tstart expired
                            committed)))"

definition balanced :: "'s environment \<Rightarrow> bool" where
  "balanced env \<longleftrightarrow> length (txs env) = length (receipts env)"

text \<open>
  For the resubmit controller: the magnitude a number is rounded to and whether it
  overflows, the interval before it is clamped, the conversion to an integer that drops
  the fraction, and the increase as the specification writes it,
  \<open>next = recommit\<sqdot>(1 - \<alpha>) + \<alpha>\<sqdot>(recommit / ratio + \<beta>)\<close> clamped to 15 s, in
  \<^verbatim>\<open>float64\<close> arithmetic.
\<close>

definition f64_magnitude :: "rat \<Rightarrow> rat" where
  "f64_magnitude x = of_int (f64_significand x) * 2 powi f64_exponent x"

definition f64_overflow :: "rat \<Rightarrow> bool" where
  "f64_overflow x \<longleftrightarrow>
     971 < f64_exponent x \<or> (f64_exponent x = 971 \<and> 2 ^ 53 \<le> f64_significand x)"

definition recommit_raw :: "int \<Rightarrow> f64 \<Rightarrow> f64" where
  "recommit_raw prev u =
     fadd (fmul (f64_of_int prev) (round_f64 (1 - 1 / 10))) (fmul intervalAdjustRatio u)"

definition truncate_rat :: "rat \<Rightarrow> int" where
  "truncate_rat a = (if 0 \<le> a then \<lfloor>a\<rfloor> else \<lceil>a\<rceil>)"

definition spec_increase :: "int \<Rightarrow> f64 \<Rightarrow> f64" where
  "spec_increase prev r =
     (let p = f64_of_int prev;
          next = fadd (fmul p (round_f64 (1 - 1 / 10)))
                   (fmul (round_f64 (1 / 10)) (fadd (fdiv p r) (round_f64 200000000)))
      in if fgt next (f64_of_int 15000000000) then f64_of_int 15000000000 else next)"

subsection \<open>Example inputs\<close>

definition ex_header :: "int \<Rightarrow> hash \<Rightarrow> hash \<Rightarrow> header" where
  \<comment> \<open>a header with the given number, parent hash and state root\<close>
  "ex_header n parent rt =
     \<lparr>ParentHash = parent, Root = rt, Coinbase = 0, Number = n, GasLimit = 30000000,
      GasUsed = 0, Time = 1000000, Fees = 0, Extra = [], MixDigest = 0, BaseFee = None\<rparr>"

definition ex_block :: "int \<Rightarrow> hash \<Rightarrow> hash \<Rightarrow> block" where
  "ex_block n parent rt =
     \<lparr>BlockHeader = ex_header n parent rt, BlockTransactions = [], BlockUncles = []\<rparr>"

definition ex_chain :: "bool \<Rightarrow> (int \<times> int list) chain" where
  \<comment> \<open>a chain whose head is block 100; headers are identified by their state root\<close>
  "ex_chain pow =
     \<lparr>IsPoW = pow, GetTd = (\<lambda>h n. None), TerminalTotalDifficulty = None,
      HeaderHash = Root, GetHeaderByNumber = (\<lambda>n. None),
      CurrentBlock = ex_block 100 9 10,
      GetBlockByHash = (\<lambda>h. None), GetBlocksFromHash = (\<lambda>h n. []),
      GetBlockBuildParameters = (\<lambda>n. (1000, 30000000, 0, 0)),
      CalcGasLimit = (\<lambda>a b. b), CalcBaseFee = (\<lambda>h. 0), IsLondon = (\<lambda>n. False),
      IsEIP155 = (\<lambda>n. True), MakeSigner = (\<lambda>n. 0), EnginePrepare = Inr,
      StateAt = (\<lambda>h. Inr (0, [])), StateAtBlock = (\<lambda>b. Inr (0, []))\<rparr>"

definition ex_receipt :: receipt where
  "ex_receipt = \<lparr>ReceiptGasUsed = 21000, Logs = [], ReceiptBlockHash = 0\<rparr>"

definition ex_db :: "(int \<times> int list) statedb" where
  \<comment> \<open>a state database with one cell and the stack of its saved values; a transaction
      adds 1 to the cell, and fails when it is replay-protected\<close>
  "ex_db =
     \<lparr>Snapshot = (\<lambda>s. (int (length (snd s)), (fst s, snd s @ [fst s]))),
      RevertToSnapshot = (\<lambda>i s. (snd s ! nat i, take (nat i) (snd s))),
      Prepare = (\<lambda>h i s. s), StartPrefetcher = (\<lambda>s. s), Copy = (\<lambda>s. s),
      ApplyTransaction = (\<lambda>cb gp s h tx.
        \<lparr>arResult = (if Protected tx then Inl [ErrNonceTooLow] else Inr ex_receipt),
         arState = (fst s + 1, snd s),
         arGas = (case gp of None \<Rightarrow> 0 | Some g \<Rightarrow> g - 21000),
         arGasUsed = GasUsed h + 21000, arFees = Fees h\<rparr>)\<rparr>"

definition ex_tx :: transaction where
  "ex_tx = \<lparr>TxHash = 2, Protected = False\<rparr>"

definition ex_tx_protected :: transaction where
  "ex_tx_protected = \<lparr>TxHash = 3, Protected = True\<rparr>"

definition ex_params :: params where
  "ex_params =
     \<lparr>TxGas = 21000, MaxTxsPerBlock = 0, BlockMinBuildTxs = 0, BlockTimeAdjBlocks = 10,
      BlockTimeAdjMultiple = 3, BlockMinBuildTime = 300, BlockTrailTime = 300,
      ElasticityMultiplier = 2, PrefetchCount = 0\<rparr>"

definition ex_env :: "(int \<times> int list) environment" where
  \<comment> \<open>what \<^verbatim>\<open>makeEnv\<close> builds on \<open>ex_chain\<close> for block 101\<close>
  "ex_env =
     \<lparr>signer = 0, state = (0, []), ancestors = {}, family = {}, tcount = 0, gasPool = None,
      coinbase = 0, header = ex_header 101 10 0, txs = [], receipts = [],
      uncles = Map.empty, till = None, blockInterval = 0, blockGasLimit = None,
      baseFeeMaxChangeRate = 0, gasTargetPercentage = 0\<rparr>"

definition ex_env_uncles :: "(int \<times> int list) environment" where
  \<comment> \<open>an environment for block 101 with the ancestors 9 and 10 and one uncle\<close>
  "ex_env_uncles =
     ex_env\<lparr>ancestors := {9, 10}, family := {9, 10},
            uncles := [55 \<mapsto> ex_header 100 9 55]\<rparr>"

definition ex_task :: "int \<Rightarrow> unit task" where
  \<comment> \<open>a pending task for the block with the given number\<close>
  "ex_task n = \<lparr>taskReceipts = [], taskState = (), taskBlock = ex_block n 0 0\<rparr>"

definition ex_snapshot :: worker_snapshot where
  "ex_snapshot =
     \<lparr>snapshotBlock = Some (ex_block 101 10 0), snapshotReceipts = [],
      snapshotState = Some 0\<rparr>"

definition amd64 :: "f64 \<Rightarrow> int" where
  \<comment> \<open>what an x86-64 processor gives for a conversion that does not fit\<close>
  "amd64 x = - (2 ^ 63)"

section \<open>Uncle admission\<close>

text \<open>
  Claim C6. \<^verbatim>\<open>commitUncle\<close> returns an error exactly when the mode is not PoW, or the
  terminal total difficulty is reached for the header of the environment, or the hash of
  the uncle is already among the uncles, or the uncle is a sibling, or its parent is not
  an ancestor, or its hash is in the family. An error leaves the environment as it was;
  otherwise the uncle is stored under its hash and nil is returned.
\<close>

theorem commitUncle_error_iff:
  "(fst (commitUncle w env u) \<noteq> None) =
     (\<not> IsPoW w \<or> isTTDReached w (header env) \<or> uncles env (HeaderHash w u) \<noteq> None
      \<or> ParentHash u = ParentHash (header env) \<or> ParentHash u \<notin> ancestors env
      \<or> HeaderHash w u \<in> family env)
   \<and> (fst (commitUncle w env u) \<noteq> None \<longrightarrow> snd (commitUncle w env u) = env)
   \<and> (fst (commitUncle w env u) = None \<longrightarrow>
        snd (commitUncle w env u) = env\<lparr>uncles := (uncles env)(HeaderHash w u \<mapsto> u)\<rparr>)"
  by (auto simp: commitUncle_def Let_def)

text \<open>
  The fourth scenario of the specification: with one uncle accepted already, a side block
  whose parent is an ancestor is admitted, and a side block with the parent of the header
  is refused.
\<close>

theorem commitUncle_error_iff_witness:
  "fst (commitUncle (ex_chain True) ex_env_uncles (ex_header 100 9 77)) = None
   \<and> uncles (snd (commitUncle (ex_chain True) ex_env_uncles (ex_header 100 9 77))) 77
       = Some (ex_header 100 9 77)
   \<and> fst (commitUncle (ex_chain True) ex_env_uncles (ex_header 101 10 78)) \<noteq> None
   \<and> fst (commitUncle (ex_chain False) ex_env_uncles (ex_header 100 9 77)) \<noteq> None"
  using commitUncle_error_iff [of "ex_chain True" ex_env_uncles "ex_header 100 9 77"]
    commitUncle_error_iff [of "ex_chain True" ex_env_uncles "ex_header 101 10 78"]
    commitUncle_error_iff [of "ex_chain False" ex_env_uncles "ex_header 100 9 77"]
  by (simp add: ex_chain_def ex_env_uncles_def ex_env_def ex_header_def ex_block_def
      isTTDReached_def)

section \<open>Stale pending tasks\<close>

text \<open>
  Claim C7, as stated, fails: a task whose block is exactly 7 behind the head is pruned,
  although the distance is not more than 7.
\<close>

theorem clearPending_distance_7_counterexample:
  "clearPending 10 [1::nat \<mapsto> ex_task 3] 1 = None
   \<and> \<not> 7 < 10 - NumberU64 (taskBlock (ex_task 3))"
  by (simp add: clearPending_def ex_task_def ex_block_def ex_header_def NumberU64_def u64_def
      staleThreshold_def)

text \<open>
  Claim C7, amended. An entry is pruned exactly when its block number plus 7, as a
  \<^verbatim>\<open>uint64\<close>, is at most the head number; when the sum does not overflow, that is when
  the head is at least 7 ahead. Every other entry is kept as it is.
\<close>

theorem clearPending_pruned_iff:
  "pendingTasks h = Some t \<Longrightarrow>
     (clearPending number pendingTasks h = None)
       = (u64 (NumberU64 (taskBlock t) + 7) \<le> number)
     \<and> (NumberU64 (taskBlock t) + 7 < 2 ^ 64 \<longrightarrow>
          (clearPending number pendingTasks h = None) = (7 \<le> number - NumberU64 (taskBlock t)))
     \<and> (clearPending number pendingTasks h \<noteq> None \<longrightarrow>
          clearPending number pendingTasks h = Some t)"
  by (auto simp: clearPending_def staleThreshold_def u64_def NumberU64_def)

lemma ex_task_number: "NumberU64 (taskBlock (ex_task 3)) = 3" "NumberU64 (taskBlock (ex_task 4)) = 4"
  by (simp_all add: ex_task_def ex_block_def ex_header_def NumberU64_def u64_def)

theorem clearPending_pruned_iff_witness:
  "[1::nat \<mapsto> ex_task 3, 2 \<mapsto> ex_task 4] 1 = Some (ex_task 3)
   \<and> clearPending 10 [1::nat \<mapsto> ex_task 3, 2 \<mapsto> ex_task 4] 1 = None
   \<and> clearPending 10 [1::nat \<mapsto> ex_task 3, 2 \<mapsto> ex_task 4] 2 = Some (ex_task 4)"
proof -
  have a: "[1::nat \<mapsto> ex_task 3, 2 \<mapsto> ex_task 4] 1 = Some (ex_task 3)"
    and b: "[1::nat \<mapsto> ex_task 3, 2 \<mapsto> ex_task 4] 2 = Some (ex_task 4)"
    by simp_all
  show ?thesis
    using clearPending_pruned_iff [of "[1::nat \<mapsto> ex_task 3, 2 \<mapsto> ex_task 4]" 1 "ex_task 3" 10]
      clearPending_pruned_iff [of "[1::nat \<mapsto> ex_task 3, 2 \<mapsto> ex_task 4]" 2 "ex_task 4" 10]
      a b
    by (simp add: ex_task_number u64_def)
qed

section \<open>The pacing controller\<close>

text \<open>
  Claim C8. The timestamp that \<^verbatim>\<open>timeIt\<close> returns is the larger of the current unix time
  in seconds, as a \<^verbatim>\<open>uint64\<close>, and the number of the parent block, whatever the chain, the
  parameters and the offset are.
\<close>

theorem timeIt_timestamp:
  "fst (timeIt w p now intervalMs) = max (u64 (Unix now)) (NumberU64 (CurrentBlock w))"
  by (simp add: timeIt_def timeIt_paced_def Let_def split_beta max_def)

theorem timeIt_timestamp_witness:
  "fst (timeIt (ex_chain False) ex_params \<lparr>Unix = 1700000000, UnixNano = 1700000000123456789\<rparr>
          1000) = 1700000000
   \<and> fst (timeIt (ex_chain False) ex_params \<lparr>Unix = 5, UnixNano = 5000000000\<rparr> 1000) = 100"
  using timeIt_timestamp [of "ex_chain False" ex_params
      "\<lparr>Unix = 1700000000, UnixNano = 1700000000123456789\<rparr>" 1000]
    timeIt_timestamp [of "ex_chain False" ex_params "\<lparr>Unix = 5, UnixNano = 5000000000\<rparr>" 1000]
  by (simp add: ex_chain_def ex_block_def ex_header_def NumberU64_def u64_def)

lemma quot_below: "ms < 1000 \<Longrightarrow> quot ms 1000 \<le> 0"
  unfolding quot_def by (cases "ms < 0") (auto simp: sgn_if)

text \<open>
  Claim C9. \<^verbatim>\<open>timeIt\<close> works with the interval divided by 1000, the division truncating,
  and with 1 when the quotient is not positive. So every interval below 1000 ms gives
  what an interval of one second gives, timestamp and deadline.
\<close>

theorem timeIt_interval_seconds:
  "timeIt w p now intervalMs
     = timeIt_paced w p now (if quot intervalMs 1000 \<le> 0 then 1 else quot intervalMs 1000)
   \<and> (intervalMs < 1000 \<longrightarrow>
        timeIt w p now intervalMs = timeIt_paced w p now 1
        \<and> timeIt w p now intervalMs = timeIt w p now 1000)"
proof -
  have a: "timeIt w p now ms
     = timeIt_paced w p now (if quot ms 1000 \<le> 0 then 1 else quot ms 1000)" for ms
    by (simp add: timeIt_def Let_def)
  have b: "quot 1000 1000 = 1" by (simp add: quot_def)
  show ?thesis using quot_below[of intervalMs] by (simp add: a b)
qed

theorem timeIt_interval_seconds_witness:
  "(999::int) < 1000
   \<and> timeIt (ex_chain False) ex_params \<lparr>Unix = 1700000000, UnixNano = 1700000000123456789\<rparr> 999
     = timeIt (ex_chain False) ex_params \<lparr>Unix = 1700000000, UnixNano = 1700000000123456789\<rparr>
         1000
   \<and> timeIt (ex_chain False) ex_params \<lparr>Unix = 1700000000, UnixNano = 1700000000123456789\<rparr>
       (- 5000)
     = timeIt (ex_chain False) ex_params \<lparr>Unix = 1700000000, UnixNano = 1700000000123456789\<rparr>
         1000"
proof -
  have a: "(999::int) < 1000" and b: "(- 5000::int) < 1000" by simp_all
  show ?thesis
    using timeIt_interval_seconds [THEN conjunct2, rule_format, OF a, THEN conjunct2,
        of "ex_chain False" ex_params "\<lparr>Unix = 1700000000, UnixNano = 1700000000123456789\<rparr>"]
      timeIt_interval_seconds [THEN conjunct2, rule_format, OF b, THEN conjunct2,
        of "ex_chain False" ex_params "\<lparr>Unix = 1700000000, UnixNano = 1700000000123456789\<rparr>"]
    by (simp only: a simp_thms)
qed

section \<open>The transaction committer\<close>

text \<open>
  Claim C1. Let the state database keep its contract (\<open>journaled\<close>). When
  \<^verbatim>\<open>ApplyTransaction\<close> returns an error, \<^verbatim>\<open>commitTransaction\<close> returns that error, the
  state of the environment is the state from before the attempt, and \<^verbatim>\<open>env.txs\<close> and
  \<^verbatim>\<open>env.receipts\<close> are unchanged. When it succeeds, the transaction and its receipt are
  appended; nothing is appended otherwise.
\<close>

theorem commitTransaction_reverts_on_error:
  assumes "journaled db"
  shows "(case arResult (applied db env tx) of
            Inl err \<Rightarrow>
              snd (fst (commitTransaction db env tx)) = Some err
              \<and> state (snd (commitTransaction db env tx)) = state env
              \<and> txs (snd (commitTransaction db env tx)) = txs env
              \<and> receipts (snd (commitTransaction db env tx)) = receipts env
          | Inr receipt \<Rightarrow>
              snd (fst (commitTransaction db env tx)) = None
              \<and> txs (snd (commitTransaction db env tx)) = txs env @ [tx]
              \<and> receipts (snd (commitTransaction db env tx)) = receipts env @ [receipt])"
proof -
  have r: "RevertToSnapshot db (fst (Snapshot db (state env)))
             (arState (applied db env tx)) = state env"
    using assms unfolding journaled_def applied_def by blast
  show ?thesis
    using r by (simp add: commitTransaction_def applied_def Let_def split_beta split: sum.splits)
qed

lemma ex_db_journaled: "journaled ex_db"
  by (simp add: journaled_def ex_db_def)

theorem commitTransaction_reverts_on_error_witness:
  "journaled ex_db
   \<and> arResult (applied ex_db ex_env ex_tx_protected) = Inl [ErrNonceTooLow]
   \<and> state (snd (commitTransaction ex_db ex_env ex_tx_protected)) = (0, [])
   \<and> txs (snd (commitTransaction ex_db ex_env ex_tx_protected)) = []
   \<and> arResult (applied ex_db ex_env ex_tx) = Inr ex_receipt
   \<and> txs (snd (commitTransaction ex_db ex_env ex_tx))
       = [ex_tx]
   \<and> receipts (snd (commitTransaction ex_db ex_env ex_tx))
       = [ex_receipt]"
proof -
  have a: "arResult (applied ex_db ex_env ex_tx_protected) = Inl [ErrNonceTooLow]"
    by (simp add: applied_def ex_db_def ex_tx_protected_def)
  have b: "arResult (applied ex_db ex_env ex_tx) = Inr ex_receipt"
    by (simp add: applied_def ex_db_def ex_tx_def)
  have e: "state ex_env = (0, [])" "txs ex_env = []" "receipts ex_env = []"
    by (simp_all add: ex_env_def)
  show ?thesis
    using commitTransaction_reverts_on_error [OF ex_db_journaled, of ex_env
        ex_tx_protected]
      commitTransaction_reverts_on_error [OF ex_db_journaled, of ex_env
        ex_tx]
    by (simp add: a b e ex_db_journaled)
qed

subsection \<open>One step of the loop\<close>

lemma commitTransaction_lengths:
  "length (txs env) = length (receipts env) \<Longrightarrow>
     length (txs (snd (commitTransaction db env tx)))
       = length (receipts (snd (commitTransaction db env tx)))"
  by (simp add: commitTransaction_def Let_def split_beta split: sum.splits)

lemma commitTransaction_gasPool:
  "(gasPool (snd (commitTransaction db env tx)) = None) = (gasPool env = None)"
  by (simp add: commitTransaction_def Let_def split_beta split: sum.splits)

lemma apply_and_dispatch_lengths:
  "length (txs (envOf st)) = length (receipts (envOf st)) \<Longrightarrow>
     length (txs (envOf (snd (apply_and_dispatch db tx st))))
       = length (receipts (envOf (snd (apply_and_dispatch db tx st))))"
  using commitTransaction_lengths
    [of "(envOf st)\<lparr>state := Prepare db (TxHash tx) (tcount (envOf st)) (state (envOf st))\<rparr>" db tx]
  by (simp add: apply_and_dispatch_def Let_def split_beta)

lemma apply_and_dispatch_gasPool:
  "(gasPool (envOf (snd (apply_and_dispatch db tx st))) = None) = (gasPool (envOf st) = None)"
  using commitTransaction_gasPool
    [of db "(envOf st)\<lparr>state := Prepare db (TxHash tx) (tcount (envOf st)) (state (envOf st))\<rparr>" tx]
  by (simp add: apply_and_dispatch_def Let_def split_beta)

lemma apply_and_dispatch_loads:
  "loads (snd (apply_and_dispatch db tx st)) = loads st"
  by (simp add: apply_and_dispatch_def Let_def split_beta)

lemma mark_committed_env: "envOf (mark_committed tx st) = envOf st"
  by (simp add: mark_committed_def)

lemma mark_committed_loads: "loads (mark_committed tx st) = loads st"
  by (simp add: mark_committed_def)

subsection \<open>The interrupt check\<close>

lemma interrupt_check_env:
  "envOf (snd (interrupt_check interrupt gasLimit st)) = envOf st"
  by (simp add: interrupt_check_def atomic_LoadInt32_def Let_def split_beta
      split: option.splits)

lemma interrupt_check_nil:
  "interrupt_check None gasLimit st = (None, st)"
  by (simp add: interrupt_check_def)

lemma interrupt_check_none:
  "cell (loads st) = commitInterruptNone \<Longrightarrow>
     interrupt_check (Some cell) gasLimit st = (None, st\<lparr>loads := Suc (loads st)\<rparr>)"
  by (simp add: interrupt_check_def atomic_LoadInt32_def Let_def)

lemma interrupt_check_some:
  "cell (loads st) \<noteq> commitInterruptNone \<Longrightarrow> gasPool (envOf st) \<noteq> None \<Longrightarrow>
     \<exists>st1. interrupt_check (Some cell) gasLimit st
             = (Some (Return (cell (loads st + 2) = commitInterruptNewHead)), st1)
           \<and> loads st1 = loads st + 3"
  by (auto simp: interrupt_check_def atomic_LoadInt32_def Let_def split_beta
      split: option.splits)

lemma zero_so_far_not_left:
  "zero_so_far interrupt st \<Longrightarrow> \<not> left_at_check interrupt st"
  by (auto simp: zero_so_far_def left_at_check_def list_all_iff split: option.splits)

lemma zero_so_far_loads:
  "zero_so_far interrupt st \<Longrightarrow> loads st1 = loads st \<Longrightarrow> zero_so_far interrupt st1"
  by (simp add: zero_so_far_def split: option.splits)

lemma interrupt_check_cases:
  assumes "zero_so_far interrupt st" and "gasPool (envOf st) \<noteq> None"
  shows "case interrupt_check interrupt gasLimit st of
           (None, st1) \<Rightarrow> zero_so_far interrupt st1 \<and> envOf st1 = envOf st
         | (Some ex, st1) \<Rightarrow> exit_ok interrupt (ex, st1)"
proof (cases interrupt)
  case None
  then show ?thesis using assms by (simp add: interrupt_check_nil zero_so_far_def)
next
  case (Some cell)
  show ?thesis
  proof (cases "cell (loads st) = commitInterruptNone")
    case True
    then show ?thesis using assms Some
      by (simp add: interrupt_check_none zero_so_far_def commitInterruptNone_def)
  next
    case False
    from interrupt_check_some[of cell st gasLimit] False assms(2)
    obtain st1 where e: "interrupt_check (Some cell) gasLimit st
                         = (Some (Return (cell (loads st + 2) = commitInterruptNewHead)), st1)"
      and l: "loads st1 = loads st + 3"
      by blast
    show ?thesis using False
      by (simp add: Some e l exit_ok_def left_at_check_def last_load_def)
  qed
qed

lemma check_cases:
  obtains (leave) ex st1 where "interrupt_check interrupt gasLimit st = (Some ex, st1)"
  | (go_on) st1 where "interrupt_check interrupt gasLimit st = (None, st1)"
  by (cases "interrupt_check interrupt gasLimit st"; cases "fst (interrupt_check interrupt gasLimit st)")
     auto

lemma check_leave:
  assumes "zero_so_far interrupt st" and "gasPool (envOf st) \<noteq> None"
    and "interrupt_check interrupt gasLimit st = (Some ex, st1)"
  shows "exit_ok interrupt (ex, st1)"
  using interrupt_check_cases[OF assms(1,2), of gasLimit] by (simp add: assms(3))

lemma check_go_on:
  assumes "zero_so_far interrupt st" and "gasPool (envOf st) \<noteq> None"
    and "interrupt_check interrupt gasLimit st = (None, st1)"
  shows "zero_so_far interrupt st1 \<and> gasPool (envOf st1) \<noteq> None"
  using interrupt_check_cases[OF assms(1,2), of gasLimit] assms(2) by (simp add: assms(3))

subsection \<open>The loop, one unfolding at a time\<close>

lemma loop_at_check:
  "interrupt_check interrupt gasLimit st = (Some ex, st1) \<Longrightarrow>
     commitTransactions_loop w db p interrupt tstart expired gasLimit it st = (ex, st1)"
  by (subst commitTransactions_loop.simps) simp

lemma loop_at_panic:
  "interrupt_check interrupt gasLimit st = (None, st1) \<Longrightarrow> gasPool (envOf st1) = None \<Longrightarrow>
     commitTransactions_loop w db p interrupt tstart expired gasLimit it st = (Panic, st1)"
  by (subst commitTransactions_loop.simps) simp

lemma loop_at_gas:
  "interrupt_check interrupt gasLimit st = (None, st1) \<Longrightarrow> gasPool (envOf st1) = Some gas \<Longrightarrow>
     gas < TxGas p \<Longrightarrow>
     commitTransactions_loop w db p interrupt tstart expired gasLimit it st = (Break, st1)"
  by (subst commitTransactions_loop.simps) simp

lemma loop_at_done:
  "interrupt_check interrupt gasLimit st = (None, st1) \<Longrightarrow> gasPool (envOf st1) = Some gas \<Longrightarrow>
     commitTransactions_loop w db p interrupt tstart expired gasLimit Done st = (Break, st1)"
  by (subst commitTransactions_loop.simps) simp

lemma advance_case:
  "(case x of (PopHead, s) \<Rightarrow> A s | (ShiftHead, s) \<Rightarrow> B s)
     = (if fst x = PopHead then A (snd x) else B (snd x))"
  by (cases x; cases "fst x") auto

lemma loop_at_next:
  assumes "interrupt_check interrupt gasLimit st = (None, st1)"
    and "gasPool (envOf st1) = Some gas" and "\<not> gas < TxGas p"
  shows "commitTransactions_loop w db p interrupt tstart expired gasLimit (Next tx popped shifted) st =
       (if 0 < MaxTxsPerBlock p \<and> MaxTxsPerBlock p \<le> tcount (envOf st1) then (Break, st1)
        else if tstart \<noteq> None \<and> till (envOf st1) \<noteq> None \<and> expired (iteration st1)
                \<and> BlockMinBuildTxs p \<le> len_map (committedTxs st1)
        then (Break, st1)
        else if Protected tx \<and> \<not> IsEIP155 w (Number (header (envOf (mark_committed tx st1))))
        then commitTransactions_loop w db p interrupt tstart expired gasLimit popped
               (mark_committed tx st1)
        else if fst (apply_and_dispatch db tx (mark_committed tx st1)) = PopHead
        then commitTransactions_loop w db p interrupt tstart expired gasLimit popped
               (snd (apply_and_dispatch db tx (mark_committed tx st1)))
        else commitTransactions_loop w db p interrupt tstart expired gasLimit shifted
               (snd (apply_and_dispatch db tx (mark_committed tx st1))))"
  by (subst commitTransactions_loop.simps)
     (simp only: assms option.case prod.case if_False txs_iter.case Let_def advance_case)

lemma params_no_limit:
  "TxGas (p\<lparr>MaxTxsPerBlock := 0\<rparr>) = TxGas p"
  "BlockMinBuildTxs (p\<lparr>MaxTxsPerBlock := 0\<rparr>) = BlockMinBuildTxs p"
  "(0 < MaxTxsPerBlock (p\<lparr>MaxTxsPerBlock := 0\<rparr>) \<and> c) = False"
  by simp_all

text \<open>
  The loop of \<^verbatim>\<open>commitTransactionsSimple\<close> is the loop of \<^verbatim>\<open>commitTransactions\<close> without
  the limit on the number of transactions.
\<close>

lemma commitTransactionsSimple_loop_eq:
  "commitTransactionsSimple_loop w db p interrupt tstart expired gasLimit it st
     = commitTransactions_loop w db (p\<lparr>MaxTxsPerBlock := 0\<rparr>) interrupt tstart expired gasLimit it st"
proof (induction it arbitrary: st)
  case Done
  show ?case
    by (subst commitTransactionsSimple_loop.simps, subst commitTransactions_loop.simps)
       (simp only: params_no_limit txs_iter.case)
next
  case (Next tx popped shifted)
  show ?case
    by (subst commitTransactionsSimple_loop.simps, subst commitTransactions_loop.simps)
       (simp only: Next.IH params_no_limit txs_iter.case if_False)
qed

subsection \<open>How the loop is left\<close>

lemma exit_ok_if:
  "exit_ok i a \<Longrightarrow> exit_ok i b \<Longrightarrow> exit_ok i (if c then a else b)"
  by simp

lemma commitTransactions_loop_exit:
  "zero_so_far interrupt st \<Longrightarrow> gasPool (envOf st) \<noteq> None \<Longrightarrow>
     exit_ok interrupt (commitTransactions_loop w db p interrupt tstart expired gasLimit it st)"
proof (induction it arbitrary: st)
  case Done
  show ?case
  proof (cases interrupt gasLimit st rule: check_cases)
    case (leave ex st1)
    then show ?thesis using check_leave[OF Done.prems leave] by (simp add: loop_at_check)
  next
    case (go_on st1)
    from check_go_on[OF Done.prems go_on]
    obtain gas where z: "zero_so_far interrupt st1" and g: "gasPool (envOf st1) = Some gas"
      by auto
    show ?thesis using z by (simp add: loop_at_done[OF go_on g] exit_ok_def)
  qed
next
  case (Next tx popped shifted)
  show ?case
  proof (cases interrupt gasLimit st rule: check_cases)
    case (leave ex st1)
    then show ?thesis using check_leave[OF Next.prems leave] by (simp add: loop_at_check)
  next
    case (go_on st1)
    from check_go_on[OF Next.prems go_on]
    obtain gas where z: "zero_so_far interrupt st1" and g: "gasPool (envOf st1) = Some gas"
      by auto
    have brk: "exit_ok interrupt (Break, st1)" using z by (simp add: exit_ok_def)
    show ?thesis
    proof (cases "gas < TxGas p")
      case True
      have "commitTransactions_loop w db p interrupt tstart expired gasLimit
              (Next tx popped shifted) st = (Break, st1)"
        by (rule loop_at_gas[OF go_on g True])
      then show ?thesis using brk by (simp only:)
    next
      case False
      let ?st2 = "mark_committed tx st1"
      have z2: "zero_so_far interrupt ?st2"
        by (rule zero_so_far_loads[OF z]) (simp add: mark_committed_loads)
      have g2: "gasPool (envOf ?st2) \<noteq> None" using g by (simp add: mark_committed_env)
      have z3: "zero_so_far interrupt (snd (apply_and_dispatch db tx ?st2))"
        by (rule zero_so_far_loads[OF z2]) (simp add: apply_and_dispatch_loads)
      have g3: "gasPool (envOf (snd (apply_and_dispatch db tx ?st2))) \<noteq> None"
        using g2 by (simp add: apply_and_dispatch_gasPool)
      show ?thesis
        by (simp only: loop_at_next[OF go_on g False, of w db tstart expired tx popped shifted])
           (intro exit_ok_if brk Next.IH(1)[OF z2 g2] Next.IH(1)[OF z3 g3]
              Next.IH(2)[OF z3 g3])
    qed
  qed
qed

lemma loop_env_invariant:
  assumes step: "\<And>tx st. P (envOf st) \<Longrightarrow> P (envOf (snd (apply_and_dispatch db tx st)))"
  shows "P (envOf st) \<Longrightarrow>
     P (envOf (snd (commitTransactions_loop w db p interrupt tstart expired gasLimit it st)))"
proof (induction it arbitrary: st)
  case Done
  show ?case
  proof (cases interrupt gasLimit st rule: check_cases)
    case (leave ex st1)
    have "envOf st1 = envOf st" using interrupt_check_env[of interrupt gasLimit st] leave by simp
    then show ?thesis using Done by (simp add: loop_at_check[OF leave])
  next
    case (go_on st1)
    have e: "envOf st1 = envOf st" using interrupt_check_env[of interrupt gasLimit st] go_on by simp
    show ?thesis
    proof (cases "gasPool (envOf st1)")
      case None
      show ?thesis using Done e by (simp add: loop_at_panic[OF go_on None])
    next
      case (Some gas)
      show ?thesis using Done e by (simp add: loop_at_done[OF go_on Some])
    qed
  qed
next
  case (Next tx popped shifted)
  show ?case
  proof (cases interrupt gasLimit st rule: check_cases)
    case (leave ex st1)
    have "envOf st1 = envOf st" using interrupt_check_env[of interrupt gasLimit st] leave by simp
    then show ?thesis using Next.prems by (simp add: loop_at_check[OF leave])
  next
    case (go_on st1)
    have e: "envOf st1 = envOf st" using interrupt_check_env[of interrupt gasLimit st] go_on by simp
    have p1: "P (envOf st1)" using Next.prems e by simp
    show ?thesis
    proof (cases "gasPool (envOf st1)")
      case None
      show ?thesis using p1 by (simp add: loop_at_panic[OF go_on None])
    next
      case (Some gas)
      show ?thesis
      proof (cases "gas < TxGas p")
        case True
        show ?thesis using p1 by (simp add: loop_at_gas[OF go_on Some True])
      next
        case False
        have p2: "P (envOf (mark_committed tx st1))" using p1 by (simp add: mark_committed_env)
        have p3: "P (envOf (snd (apply_and_dispatch db tx (mark_committed tx st1))))"
          by (rule step[OF p2])
        show ?thesis
          using p1 Next.IH(1)[OF p2] Next.IH(1)[OF p3] Next.IH(2)[OF p3]
          by (simp add: loop_at_next[OF go_on Some False])
      qed
    qed
  qed
qed

lemma after_loop_env: "envOf (snd (after_loop running interrupt r)) = envOf (snd r)"
  by (cases r; cases "fst r") (simp_all add: after_loop_def Let_def)

lemma after_loop_loads: "loads (snd (after_loop running interrupt r)) = loads (snd r)"
  by (cases r; cases "fst r") (simp_all add: after_loop_def Let_def)

lemma after_loop_exit_ok:
  assumes "exit_ok interrupt r"
  shows "fst (after_loop running interrupt r)
           = Returned (left_at_check interrupt (snd (after_loop running interrupt r))
                       \<and> last_load interrupt (snd (after_loop running interrupt r))
                           = commitInterruptNewHead)"
proof (cases r)
  case (Pair ex st)
  show ?thesis
  proof (cases ex)
    case (Return b)
    then show ?thesis using assms Pair by (auto simp: exit_ok_def after_loop_def)
  next
    case Break
    then have z: "zero_so_far interrupt st" using assms Pair by (simp add: exit_ok_def)
    have l: "loads (snd (after_loop running interrupt r)) = loads st"
      using after_loop_loads[of running interrupt r] Pair by simp
    have "zero_so_far interrupt (snd (after_loop running interrupt r))"
      by (rule zero_so_far_loads[OF z l])
    then have "\<not> left_at_check interrupt (snd (after_loop running interrupt r))"
      by (rule zero_so_far_not_left)
    then show ?thesis using Break Pair by (simp add: after_loop_def Let_def)
  next
    case Panic
    then show ?thesis using assms Pair by (simp add: exit_ok_def)
  qed
qed

lemma enter_loop_ok:
  "zero_so_far interrupt (enter_loop env committed)
   \<and> gasPool (envOf (enter_loop env committed)) \<noteq> None"
  by (simp add: enter_loop_def zero_so_far_def split: option.splits)

text \<open>
  Claim C2. \<^verbatim>\<open>commitTransactions\<close> and \<^verbatim>\<open>commitTransactionsSimple\<close> always return, and
  they return true exactly when the loop was left at the interrupt check and the load of
  the interrupt that decides the result gave \<^verbatim>\<open>commitInterruptNewHead\<close>. Every other
  way out (no gas left, no transaction left, the limit on the number of transactions, the
  deadline, an interrupt with another code, a nil interrupt) returns false.
\<close>

theorem commitTransactions_true_iff_new_head:
  "fst (commitTransactions w db p running env it interrupt tstart expired committed)
     = Returned
         (left_at_check interrupt
            (snd (commitTransactions w db p running env it interrupt tstart expired committed))
          \<and> last_load interrupt
              (snd (commitTransactions w db p running env it interrupt tstart expired committed))
              = commitInterruptNewHead)
   \<and> fst (commitTransactionsSimple w db p tx_prefetch running env orderer interrupt tstart
            expired)
     = Returned
         (left_at_check interrupt
            (snd (commitTransactionsSimple w db p tx_prefetch running env orderer interrupt
                    tstart expired))
          \<and> last_load interrupt
              (snd (commitTransactionsSimple w db p tx_prefetch running env orderer interrupt
                      tstart expired))
              = commitInterruptNewHead)"
proof
  show "fst (commitTransactions w db p running env it interrupt tstart expired committed)
     = Returned
         (left_at_check interrupt
            (snd (commitTransactions w db p running env it interrupt tstart expired committed))
          \<and> last_load interrupt
              (snd (commitTransactions w db p running env it interrupt tstart expired committed))
              = commitInterruptNewHead)"
    unfolding commitTransactions_def
    by (intro after_loop_exit_ok commitTransactions_loop_exit conjunct1[OF enter_loop_ok]
          conjunct2[OF enter_loop_ok])
next
  let ?st0 = "enter_loop env (Some (snd orderer))"
  let ?st1 = "?st0\<lparr>envOf := (envOf ?st0)\<lparr>state :=
                  tx_prefetch (envOf ?st0) (fst orderer) (PrefetchCount p)\<rparr>\<rparr>"
  have z: "zero_so_far interrupt ?st1"
    by (rule zero_so_far_loads[OF conjunct1[OF enter_loop_ok]]) simp
  have g: "gasPool (envOf ?st1) \<noteq> None"
    using conjunct2[OF enter_loop_ok, of env "Some (snd orderer)"] by simp
  show "fst (commitTransactionsSimple w db p tx_prefetch running env orderer interrupt tstart
            expired)
     = Returned
         (left_at_check interrupt
            (snd (commitTransactionsSimple w db p tx_prefetch running env orderer interrupt
                    tstart expired))
          \<and> last_load interrupt
              (snd (commitTransactionsSimple w db p tx_prefetch running env orderer interrupt
                      tstart expired))
              = commitInterruptNewHead)"
    unfolding commitTransactionsSimple_def Let_def commitTransactionsSimple_loop_eq
    by (intro after_loop_exit_ok commitTransactions_loop_exit z g)
qed

text \<open>
  Three runs on one transaction: the interrupt is set to \<^verbatim>\<open>commitInterruptNewHead\<close>
  while the transaction is applied, it is set to \<^verbatim>\<open>commitInterruptResubmit\<close> instead,
  and there is no interrupt.
\<close>

lemma ex_run_new_head:
  "loads (snd (commitTransactions (ex_chain True) ex_db ex_params True ex_env
                 (Next ex_tx Done Done)
                 (Some (\<lambda>k. if k = 0 then commitInterruptNone else commitInterruptNewHead))
                 None (\<lambda>k. False) None)) = 4"
  by (simp add: commitTransactions_def after_loop_def enter_loop_def
      commitTransactions_loop.simps interrupt_check_def atomic_LoadInt32_def
      mark_committed_def apply_and_dispatch_def commitTransaction_def errors_Is_def
      ex_env_def ex_header_def ex_db_def ex_params_def ex_tx_def ex_chain_def ex_receipt_def
      commitInterruptNone_def commitInterruptNewHead_def commitInterruptResubmit_def
      Let_def split_beta)

lemma ex_run_resubmit:
  "loads (snd (commitTransactions (ex_chain True) ex_db ex_params True ex_env
                 (Next ex_tx Done Done)
                 (Some (\<lambda>k. if k = 0 then commitInterruptNone else commitInterruptResubmit))
                 None (\<lambda>k. False) None)) = 4"
  by (simp add: commitTransactions_def after_loop_def enter_loop_def
      commitTransactions_loop.simps interrupt_check_def atomic_LoadInt32_def
      mark_committed_def apply_and_dispatch_def commitTransaction_def errors_Is_def
      ex_env_def ex_header_def ex_db_def ex_params_def ex_tx_def ex_chain_def ex_receipt_def
      commitInterruptNone_def commitInterruptNewHead_def commitInterruptResubmit_def
      Let_def split_beta)

theorem commitTransactions_true_iff_new_head_witness:
  "fst (commitTransactions (ex_chain True) ex_db ex_params True ex_env (Next ex_tx Done Done)
          (Some (\<lambda>k. if k = 0 then commitInterruptNone else commitInterruptNewHead))
          None (\<lambda>k. False) None) = Returned True
   \<and> fst (commitTransactions (ex_chain True) ex_db ex_params True ex_env (Next ex_tx Done Done)
            (Some (\<lambda>k. if k = 0 then commitInterruptNone else commitInterruptResubmit))
            None (\<lambda>k. False) None) = Returned False
   \<and> fst (commitTransactions (ex_chain True) ex_db ex_params True ex_env (Next ex_tx Done Done)
            None None (\<lambda>k. False) None) = Returned False"
  using commitTransactions_true_iff_new_head [THEN conjunct1, of "ex_chain True" ex_db
      ex_params True ex_env "Next ex_tx Done Done"
      "Some (\<lambda>k. if k = 0 then commitInterruptNone else commitInterruptNewHead)"
      None "\<lambda>k. False" None]
    commitTransactions_true_iff_new_head [THEN conjunct1, of "ex_chain True" ex_db
      ex_params True ex_env "Next ex_tx Done Done"
      "Some (\<lambda>k. if k = 0 then commitInterruptNone else commitInterruptResubmit)"
      None "\<lambda>k. False" None]
    commitTransactions_true_iff_new_head [THEN conjunct1, of "ex_chain True" ex_db
      ex_params True ex_env "Next ex_tx Done Done" None None "\<lambda>k. False" None]
  by (simp add: left_at_check_def last_load_def ex_run_new_head ex_run_resubmit
      commitInterruptNone_def commitInterruptNewHead_def commitInterruptResubmit_def)

section \<open>Transactions and receipts\<close>

lemma commitUncle_lists:
  "txs (snd (commitUncle w env u)) = txs env \<and> receipts (snd (commitUncle w env u)) = receipts env"
  by (simp add: commitUncle_def Let_def)

lemma commitUncles_lists:
  "txs (commitUncles w env bs) = txs env \<and> receipts (commitUncles w env bs) = receipts env"
  by (induction bs arbitrary: env) (simp_all add: commitUncle_lists)

lemma fold_family_lists:
  "txs (fold (\<lambda>ancestor e. e\<lparr>family := F ancestor e, ancestors := A ancestor e\<rparr>) bs env) = txs env
   \<and> receipts (fold (\<lambda>ancestor e. e\<lparr>family := F ancestor e, ancestors := A ancestor e\<rparr>) bs env)
       = receipts env"
  by (induction bs arbitrary: env) simp_all

lemma makeEnv_lists:
  "makeEnv w db parent h cb = Inr env \<Longrightarrow> txs env = [] \<and> receipts env = []"
  unfolding makeEnv_def Let_def
  by (auto simp: fold_family_lists split: sum.splits)

lemma prepareWork_finish_lists:
  "txs (prepareWork_finish w genParams deadline build localUncles remoteUncles env0) = txs env0
   \<and> receipts (prepareWork_finish w genParams deadline build localUncles remoteUncles env0)
       = receipts env0"
  by (cases build) (simp add: prepareWork_finish_def Let_def commitUncles_lists)

lemma prepareWork_lists:
  "prepareWork w db p now cfg genParams localUncles remoteUncles = Inr env
     \<Longrightarrow> txs env = [] \<and> receipts env = []"
  unfolding prepareWork_def Let_def
  by (auto split: option.splits if_splits sum.splits simp: prepareWork_finish_lists
      dest!: makeEnv_lists)

lemma environment_copy_lists:
  "txs (environment_copy db env) = txs env \<and> receipts (environment_copy db env) = receipts env"
  by (simp add: environment_copy_def copyReceipts_def)

lemma apply_and_dispatch_balanced:
  "balanced (envOf st) \<Longrightarrow> balanced (envOf (snd (apply_and_dispatch db tx st)))"
  unfolding balanced_def by (rule apply_and_dispatch_lengths)

lemma commitTransactions_balanced:
  assumes "balanced env"
  shows "balanced (envOf (snd (commitTransactions w db p running env it interrupt tstart expired
                                 committed)))"
proof -
  have h0: "balanced (envOf (enter_loop env committed))"
    using assms by (simp add: enter_loop_def balanced_def)
  have "balanced (envOf (snd (commitTransactions_loop w db p interrupt tstart expired
               (GasLimit (header env)) it (enter_loop env committed))))"
    by (rule loop_env_invariant[where P = balanced and db = db, OF _ h0])
       (rule apply_and_dispatch_balanced)
  then show ?thesis by (simp add: commitTransactions_def after_loop_env)
qed

text \<open>
  Claim C3. In every reachable environment \<^verbatim>\<open>env.txs\<close> and \<^verbatim>\<open>env.receipts\<close> have the
  same length. \<^verbatim>\<open>commitTransaction\<close> (whether the transaction applies or not), \<^verbatim>\<open>copy\<close>
  and \<^verbatim>\<open>commitUncle\<close> keep the lengths equal, and \<^verbatim>\<open>prepareWork\<close> builds an environment
  in which they are.
\<close>

theorem txs_receipts_same_length:
  "(reachable w db p env \<longrightarrow> length (txs env) = length (receipts env))
   \<and> (length (txs env) = length (receipts env) \<longrightarrow>
        length (txs (snd (commitTransaction db env tx)))
          = length (receipts (snd (commitTransaction db env tx)))
        \<and> length (txs (environment_copy db env)) = length (receipts (environment_copy db env))
        \<and> length (txs (snd (commitUncle w env u))) = length (receipts (snd (commitUncle w env u))))
   \<and> (prepareWork w db p now cfg genParams localUncles remoteUncles = Inr env \<longrightarrow>
        length (txs env) = length (receipts env))"
proof (intro conjI impI)
  assume "reachable w db p env"
  then have "balanced env"
  proof (induction rule: reachable.induct)
    case (prepared now cfg genParams localUncles remoteUncles env)
    then show ?case using prepareWork_lists by (fastforce simp: balanced_def)
  next
    case (made parent h cb env)
    then show ?case using makeEnv_lists by (fastforce simp: balanced_def)
  next
    case (applied_tx env tx)
    then show ?case by (simp add: balanced_def commitTransaction_lengths)
  next
    case (copied env)
    then show ?case by (simp add: balanced_def environment_copy_lists)
  next
    case (uncle env u)
    then show ?case by (simp add: balanced_def commitUncle_lists)
  next
    case (filled env running it interrupt tstart expired committed)
    then show ?case by (simp add: commitTransactions_balanced)
  qed
  then show "length (txs env) = length (receipts env)" by (simp add: balanced_def)
next
  assume "length (txs env) = length (receipts env)"
  then show "length (txs (snd (commitTransaction db env tx)))
          = length (receipts (snd (commitTransaction db env tx)))"
    by (rule commitTransaction_lengths)
next
  assume "length (txs env) = length (receipts env)"
  then show "length (txs (environment_copy db env)) = length (receipts (environment_copy db env))"
    by (simp add: environment_copy_lists)
next
  assume "length (txs env) = length (receipts env)"
  then show "length (txs (snd (commitUncle w env u))) = length (receipts (snd (commitUncle w env u)))"
    by (simp add: commitUncle_lists)
next
  assume "prepareWork w db p now cfg genParams localUncles remoteUncles = Inr env"
  then show "length (txs env) = length (receipts env)"
    using prepareWork_lists by fastforce
qed

lemma ex_env_made:
  "makeEnv (ex_chain True) ex_db (CurrentBlock (ex_chain True)) (ex_header 101 10 0) 0
     = Inr ex_env"
  by (simp add: makeEnv_def ex_chain_def ex_db_def ex_env_def Let_def)

theorem txs_receipts_same_length_witness:
  "reachable (ex_chain True) ex_db ex_params (snd (commitTransaction ex_db ex_env ex_tx))
   \<and> length (txs (snd (commitTransaction ex_db ex_env ex_tx))) = 1
   \<and> length (receipts (snd (commitTransaction ex_db ex_env ex_tx))) = 1"
proof -
  have r: "reachable (ex_chain True) ex_db ex_params (snd (commitTransaction ex_db ex_env ex_tx))"
    by (rule reachable.applied_tx [OF reachable.made [OF ex_env_made]])
  have t: "length (txs (snd (commitTransaction ex_db ex_env ex_tx))) = 1"
    by (simp add: commitTransaction_def ex_db_def ex_env_def ex_tx_def Let_def split_beta)
  show ?thesis
    using txs_receipts_same_length [THEN conjunct1, rule_format, OF r] r t by simp
qed

section \<open>The published snapshot\<close>

text \<open>
  Claim C10. Without a snapshot, \<^verbatim>\<open>pending\<close> returns two nils and changes nothing. With
  a snapshot whose state is in the store, it returns the block of the snapshot and a
  reference that is new and holds the content of the state of the snapshot; whatever the
  caller then writes through that reference, what the worker has published stays as it
  was.
\<close>

theorem pending_returns_copy:
  "(snapshotState w = None \<longrightarrow> pending w store = ((None, None), store))
   \<and> (\<forall>r. snapshotState w = Some r \<and> r < length store \<longrightarrow>
         (\<exists>r1. pending w store = ((snapshotBlock w, Some r1), snd (pending w store))
               \<and> r1 \<noteq> r \<and> r1 < length (snd (pending w store))
               \<and> snd (pending w store) ! r1 = store ! r
               \<and> published w (snd (pending w store)) = published w store
               \<and> (\<forall>v. published w ((snd (pending w store))[r1 := v]) = published w store)))"
  by (auto simp: pending_def StateDB_Copy_def published_def nth_append)

theorem pending_returns_copy_witness:
  "snapshotState ex_snapshot = Some 0 \<and> 0 < length [5::int]
   \<and> pending ex_snapshot [5::int] = ((Some (ex_block 101 10 0), Some 1), [5, 5])
   \<and> published ex_snapshot ([5::int, 5][1 := 9]) = published ex_snapshot [5]"
  using pending_returns_copy [of ex_snapshot "[5::int]"]
  by (simp add: ex_snapshot_def pending_def StateDB_Copy_def published_def)

section \<open>The resubmit controller\<close>

subsection \<open>Rounding to a \<^verbatim>\<open>float64\<close> is monotone\<close>

lemma ilog2_bounds:
  assumes "0 < x"
  shows "2 powi (ilog2 x) \<le> x \<and> x < 2 powi (ilog2 x + 1)"
proof -
  define p where "p = fst (quotient_of x)"
  define q where "q = snd (quotient_of x)"
  have q0: "0 < q" unfolding q_def by (rule quotient_of_denom_pos')
  have xq: "x = of_int p / of_int q"
    unfolding p_def q_def by (rule quotient_of_div) simp
  have p0: "0 < p"
    using assms q0 unfolding xq by (simp add: zero_less_divide_iff)
  have bp: "1 \<le> bitlen p" and bq: "1 \<le> bitlen q"
    using p0 q0 by (auto simp: bitlen_alt_def)
  have pw: "0 < n \<Longrightarrow> (2::rat) powi (bitlen n - 1) \<le> of_int n \<and> of_int n < (2::rat) powi (bitlen n)"
    for n :: int
  proof -
    assume n0: "0 < n"
    then have b1: "1 \<le> bitlen n" by (auto simp: bitlen_alt_def)
    have "(2::int) ^ nat (bitlen n - 1) \<le> n" and "n < (2::int) ^ nat (bitlen n)"
      using bitlen_bounds[OF n0] by simp_all
    then have "(of_int ((2::int) ^ nat (bitlen n - 1)) :: rat) \<le> of_int n"
      and "(of_int n :: rat) < of_int ((2::int) ^ nat (bitlen n))"
      by (simp_all only: of_int_le_iff of_int_less_iff)
    then show ?thesis using b1 by (simp add: power_int_nonneg_exp)
  qed
  have pl: "(2::rat) powi (bitlen p - 1) \<le> of_int p" and pu: "of_int p < (2::rat) powi (bitlen p)"
    using pw[OF p0] by simp_all
  have ql: "(2::rat) powi (bitlen q - 1) \<le> of_int q" and qu: "of_int q < (2::rat) powi (bitlen q)"
    using pw[OF q0] by simp_all
  define d where "d = bitlen p - bitlen q"
  have qpos: "(0::rat) < of_int q" using q0 by simp
  have up: "x < 2 powi (d + 1)"
  proof -
    have "x * 2 powi (bitlen q - 1) \<le> x * of_int q"
      using ql assms by (simp add: mult_left_mono)
    also have "\<dots> = of_int p" using qpos by (simp add: xq)
    also have "\<dots> < 2 powi (bitlen p)" by (rule pu)
    also have "\<dots> = 2 powi (d + 1) * 2 powi (bitlen q - 1)"
      by (simp add: d_def flip: power_int_add)
    finally show ?thesis by (simp add: mult_less_cancel_right)
  qed
  have lo: "2 powi (d - 1) \<le> x"
  proof -
    have "2 powi (d - 1) * (2::rat) powi (bitlen q) = 2 powi (bitlen p - 1)"
      by (simp add: d_def flip: power_int_add)
    also have "\<dots> \<le> of_int p" by (rule pl)
    also have "\<dots> = x * of_int q" using qpos by (simp add: xq)
    also have "\<dots> \<le> x * 2 powi (bitlen q)"
      using qu assms by (simp add: mult_left_mono)
    finally show ?thesis by (simp add: mult_le_cancel_right)
  qed
  have il: "ilog2 x = (if 2 powi d \<le> x then d else d - 1)"
    by (simp add: ilog2_def Let_def d_def p_def q_def)
  show ?thesis using up lo by (auto simp: il)
qed

lemma ilog2_mono:
  assumes "0 < x" and "x \<le> y"
  shows "ilog2 x \<le> ilog2 y"
proof (rule ccontr)
  assume "\<not> ilog2 x \<le> ilog2 y"
  then have "ilog2 y + 1 \<le> ilog2 x" by simp
  then have "(2::rat) powi (ilog2 y + 1) \<le> 2 powi (ilog2 x)"
    by (intro power_int_increasing) simp_all
  with ilog2_bounds[OF assms(1)] ilog2_bounds[of y] assms show False by linarith
qed

lemma ilog2_less:
  assumes "0 < x" and "x < 2 powi k"
  shows "ilog2 x < k"
proof (rule ccontr)
  assume "\<not> ilog2 x < k"
  then have "(2::rat) powi k \<le> 2 powi (ilog2 x)"
    by (intro power_int_increasing) simp_all
  with ilog2_bounds[OF assms(1)] assms(2) show False by linarith
qed

lemma rne_of_int: "rne (of_int n) = n"
  by (simp add: rne_def)

lemma rne_mono: "x \<le> y \<Longrightarrow> rne x \<le> rne y"
proof -
  assume xy: "x \<le> y"
  have fx: "\<lfloor>x\<rfloor> \<le> rne x" and ux: "rne x \<le> \<lfloor>x\<rfloor> + 1" for x :: rat
    by (simp_all add: rne_def Let_def)
  show ?thesis
  proof (cases "\<lfloor>x\<rfloor> < \<lfloor>y\<rfloor>")
    case True
    then show ?thesis using ux[of x] fx[of y] by linarith
  next
    case False
    then have e: "\<lfloor>x\<rfloor> = \<lfloor>y\<rfloor>" using floor_mono[OF xy] by linarith
    then show ?thesis using xy by (auto simp: rne_def Let_def)
  qed
qed

lemma rne_ge: "of_int n \<le> x \<Longrightarrow> n \<le> rne x"
  using rne_mono[of "of_int n" x] by (simp add: rne_of_int)

lemma rne_le: "x \<le> of_int n \<Longrightarrow> rne x \<le> n"
  using rne_mono[of x "of_int n"] by (simp add: rne_of_int)

lemma round_f64_alt:
  "round_f64 x =
     (if x = 0 then Fin 0
      else if f64_overflow x then (if 0 < x then PInf else NInf)
      else Fin (sgn x * f64_magnitude x))"
  by (simp add: round_f64_def f64_overflow_def f64_magnitude_def)

lemma f64_minus [simp]:
  "f64_exponent (- x) = f64_exponent x" "f64_significand (- x) = f64_significand x"
  "f64_magnitude (- x) = f64_magnitude x" "f64_overflow (- x) = f64_overflow x"
  by (simp_all add: f64_exponent_def f64_significand_def f64_magnitude_def f64_overflow_def)

lemma f64_magnitude_nonneg: "0 \<le> f64_magnitude x"
proof -
  have "0 \<le> \<bar>x\<bar> / 2 powi f64_exponent x" by simp
  then have "0 \<le> f64_significand x"
    unfolding f64_significand_def using rne_ge[of 0] by simp
  then show ?thesis by (simp add: f64_magnitude_def)
qed

lemma f64_positive_mono:
  assumes x0: "0 < x" and xy: "x \<le> y"
  shows "(f64_overflow x \<longrightarrow> f64_overflow y)
         \<and> (\<not> f64_overflow y \<longrightarrow> f64_magnitude x \<le> f64_magnitude y)"
proof -
  have y0: "0 < y" using x0 xy by simp
  define ex where "ex = f64_exponent x"
  define ey where "ey = f64_exponent y"
  define mx where "mx = f64_significand x"
  define my where "my = f64_significand y"
  have mxd: "mx = rne (x / 2 powi ex)" and myd: "my = rne (y / 2 powi ey)"
    using x0 y0 by (simp_all add: mx_def my_def ex_def ey_def f64_significand_def)
  have exd: "ex = max (ilog2 x - 52) (- 1074)" and eyd: "ey = max (ilog2 y - 52) (- 1074)"
    using x0 y0 by (simp_all add: ex_def ey_def f64_exponent_def)
  have le: "ex \<le> ey" using ilog2_mono[OF x0 xy] by (simp add: exd eyd)
  have ox: "f64_overflow x \<longleftrightarrow> 971 < ex \<or> (ex = 971 \<and> 2 ^ 53 \<le> mx)"
    and oy: "f64_overflow y \<longleftrightarrow> 971 < ey \<or> (ey = 971 \<and> 2 ^ 53 \<le> my)"
    by (simp_all add: f64_overflow_def ex_def ey_def mx_def my_def)
  have gx: "f64_magnitude x = of_int mx * 2 powi ex"
    and gy: "f64_magnitude y = of_int my * 2 powi ey"
    by (simp_all add: f64_magnitude_def ex_def ey_def mx_def my_def)
  show ?thesis
  proof (cases "ex = ey")
    case True
    have "x / 2 powi ey \<le> y / 2 powi ey" using xy by (simp add: divide_right_mono)
    then have m: "mx \<le> my" unfolding mxd myd True by (rule rne_mono)
    then have "of_int mx * (2::rat) powi ey \<le> of_int my * 2 powi ey"
      by (simp add: mult_right_mono)
    then show ?thesis using m by (auto simp: ox oy gx gy True)
  next
    case False
    then have lt: "ex < ey" using le by simp
    define k where "k = ilog2 y"
    have ek: "ey = k - 52" using lt by (auto simp: exd eyd k_def)
    have "ilog2 x - 52 < k - 52" using lt by (simp add: exd ek)
    then have "ilog2 x + 1 \<le> k" by simp
    then have "(2::rat) powi (ilog2 x + 1) \<le> 2 powi k"
      by (intro power_int_increasing) simp_all
    then have xk: "x \<le> 2 powi k" using ilog2_bounds[OF x0] by linarith
    have ky: "2 powi k \<le> y" using ilog2_bounds[OF y0] by (simp add: k_def)
    define n52 :: int where "n52 = 2 ^ 52"
    have n52: "(of_int n52 :: rat) = 2 powi 52" by (simp add: n52_def)
    have k52: "(2::rat) powi k = 2 powi 52 * 2 powi ey"
    proof -
      have "(2::rat) powi k = 2 powi (52 + ey)" by (simp add: ek)
      also have "\<dots> = 2 powi 52 * 2 powi ey" by (rule power_int_add) simp
      finally show ?thesis .
    qed
    have pey: "(0::rat) < 2 powi ey" and pex: "(0::rat) < 2 powi ex" by simp_all
    have "of_int n52 * (2::rat) powi ey \<le> y" using ky by (simp only: n52 k52)
    then have "of_int n52 \<le> y / 2 powi ey" using pey by (simp add: pos_le_divide_eq)
    then have "n52 \<le> my" unfolding myd by (rule rne_ge)
    then have "(of_int n52 :: rat) \<le> of_int my" by (simp only: of_int_le_iff)
    then have "of_int n52 * (2::rat) powi ey \<le> of_int my * 2 powi ey"
      using pey by (simp only: mult_le_cancel_right_pos)
    then have gyk: "2 powi k \<le> f64_magnitude y" by (simp only: gy n52 k52)
    have kex: "0 \<le> k - ex" using lt ek by simp
    define nk :: int where "nk = 2 ^ nat (k - ex)"
    have nk: "(of_int nk :: rat) = 2 powi (k - ex)"
      using kex by (simp add: nk_def power_int_nonneg_exp)
    have kk: "(2::rat) powi k = 2 powi (k - ex) * 2 powi ex"
    proof -
      have "(2::rat) powi k = 2 powi ((k - ex) + ex)" by simp
      also have "\<dots> = 2 powi (k - ex) * 2 powi ex" by (rule power_int_add) simp
      finally show ?thesis .
    qed
    have "x \<le> of_int nk * (2::rat) powi ex" using xk by (simp only: nk kk)
    then have "x / 2 powi ex \<le> of_int nk" using pex by (simp add: pos_divide_le_eq)
    then have "mx \<le> nk" unfolding mxd by (rule rne_le)
    then have "(of_int mx :: rat) \<le> of_int nk" by (simp only: of_int_le_iff)
    then have "of_int mx * (2::rat) powi ex \<le> of_int nk * 2 powi ex"
      using pex by (simp only: mult_le_cancel_right_pos)
    then have gxk: "f64_magnitude x \<le> 2 powi k" by (simp only: gx nk kk)
    show ?thesis using lt gxk gyk by (auto simp: ox oy)
  qed
qed

lemma round_f64_mono:
  assumes "x \<le> y"
  shows "fle (round_f64 x) (round_f64 y)"
proof -
  consider (zero) "x = 0" | (pos) "0 < x" | (neg_pos) "x < 0" "0 \<le> y" | (neg) "x < 0" "y < 0"
    by linarith
  then show ?thesis
  proof cases
    case zero
    then show ?thesis using assms f64_magnitude_nonneg[of y]
      by (simp add: round_f64_alt sgn_if)
  next
    case pos
    then have "0 < y" using assms by simp
    then show ?thesis using pos f64_positive_mono[OF pos assms]
      by (auto simp: round_f64_alt sgn_if)
  next
    case neg_pos
    then show ?thesis using f64_magnitude_nonneg[of x] f64_magnitude_nonneg[of y]
      by (auto simp: round_f64_alt sgn_if)
  next
    case neg
    then have "0 < - y" and "- y \<le> - x" using assms by simp_all
    from f64_positive_mono[OF this] neg show ?thesis
      by (auto simp: round_f64_alt sgn_if)
  qed
qed

lemma round_f64_neg: "round_f64 (- x) = fneg (round_f64 x)"
  by (auto simp: round_f64_alt sgn_if)

lemma ilog2_nonneg:
  assumes "1 \<le> x"
  shows "0 \<le> ilog2 x"
proof (rule ccontr)
  assume "\<not> 0 \<le> ilog2 x"
  then have "ilog2 x + 1 \<le> 0" by simp
  then have "(2::rat) powi (ilog2 x + 1) \<le> 2 powi 0"
    by (intro power_int_increasing) simp_all
  with ilog2_bounds[of x] assms show False by simp
qed

lemma round_f64_int:
  assumes "\<bar>n\<bar> \<le> 2 ^ 53"
  shows "round_f64 (of_int n) = Fin (of_int n)"
proof (cases "n = 0")
  case True
  then show ?thesis by (simp add: round_f64_def)
next
  case False
  define a :: rat where "a = of_int \<bar>n\<bar>"
  have "1 \<le> \<bar>n\<bar>" using False by simp
  then have "(of_int 1 :: rat) \<le> of_int \<bar>n\<bar>" by (simp only: of_int_le_iff)
  then have a1: "1 \<le> a" by (simp add: a_def)
  have a0: "0 < a" using a1 by simp
  have au: "a \<le> 2 ^ 53"
  proof -
    have "(of_int \<bar>n\<bar> :: rat) \<le> of_int (2 ^ 53)" using assms by (simp only: of_int_le_iff)
    then show ?thesis by (simp add: a_def)
  qed
  have ax: "\<bar>rat_of_int n\<bar> = a" by (simp add: a_def)
  define l where "l = ilog2 a"
  have l0: "0 \<le> l" unfolding l_def by (rule ilog2_nonneg[OF a1])
  have "a < 2 powi 54" using au by simp
  then have "l < 54" unfolding l_def by (rule ilog2_less[OF a0])
  then have l53: "l \<le> 53" by simp
  have e: "f64_exponent (of_int n) = l - 52"
    using l0 by (simp add: f64_exponent_def ax l_def)
  have m: "of_int (f64_significand (of_int n)) * 2 powi (l - 52) = a"
  proof (cases "l \<le> 52")
    case True
    define j where "j = nat (52 - l)"
    have p: "(2::rat) powi (l - 52) = 1 / 2 ^ j"
      using True by (simp add: j_def power_int_def field_simps)
    have "a / 2 powi (l - 52) = of_int (\<bar>n\<bar> * 2 ^ j)" by (simp add: p a_def)
    then have "f64_significand (of_int n) = \<bar>n\<bar> * 2 ^ j"
      by (simp only: f64_significand_def e ax rne_of_int)
    then show ?thesis by (simp add: p a_def)
  next
    case False
    then have l: "l = 53" using l53 by simp
    have "2 powi 53 \<le> a" using ilog2_bounds[OF a0] by (simp add: l_def[symmetric] l)
    then have a53: "a = 2 ^ 53" using au by simp
    have "a / 2 powi (l - 52) = of_int (2 ^ 52)" by (simp add: l a53)
    then have "f64_significand (of_int n) = 2 ^ 52"
      by (simp only: f64_significand_def e ax rne_of_int)
    then show ?thesis by (simp add: l a53)
  qed
  have "sgn (rat_of_int n) * a = of_int n"
    by (simp add: a_def sgn_if)
  then show ?thesis
    using False l53 by (simp add: round_f64_def e m)
qed

lemma round_f64_within:
  assumes b: "round_f64 B = Fin B" and x: "\<bar>x\<bar> \<le> B"
  shows "\<exists>a. round_f64 x = Fin a \<and> \<bar>a\<bar> \<le> B"
proof -
  have nb: "round_f64 (- B) = Fin (- B)" by (simp add: round_f64_neg b)
  have "fle (round_f64 (- B)) (round_f64 x)" and "fle (round_f64 x) (round_f64 B)"
    using x by (auto intro!: round_f64_mono)
  then show ?thesis unfolding b nb by (cases "round_f64 x") auto
qed

lemma round_f64_mono_fin:
  "x \<le> y \<Longrightarrow> round_f64 x = Fin a \<Longrightarrow> round_f64 y = Fin b \<Longrightarrow> a \<le> b"
  using round_f64_mono[of x y] by simp

subsection \<open>The interval before it is clamped\<close>

lemma c9_val: "round_f64 (1 - 1 / 10) = Fin (8106479329266893 / 9007199254740992)"
  by code_simp

lemma c1_val: "intervalAdjustRatio = Fin (3602879701896397 / 36028797018963968)"
  unfolding intervalAdjustRatio_def by code_simp

lemma bias_val: "intervalAdjustBias = Fin 200000000"
  unfolding intervalAdjustBias_def by code_simp

lemma max_val: "f64_of_int maxRecommitInterval = Fin 15000000000"
  unfolding f64_of_int_def maxRecommitInterval_def second_def by code_simp

lemma exact_62: "round_f64 (2 ^ 62) = Fin (2 ^ 62)"
  by code_simp

lemma exact_62_28: "round_f64 (2 ^ 62 + 2 ^ 28) = Fin (2 ^ 62 + 2 ^ 28)"
  by code_simp

lemma exact_59_25: "round_f64 (2 ^ 59 + 2 ^ 25) = Fin (2 ^ 59 + 2 ^ 25)"
  by code_simp

lemma exact_sum: "round_f64 (2 ^ 62 + 2 ^ 59 + 2 ^ 25) = Fin (2 ^ 62 + 2 ^ 59 + 2 ^ 25)"
  by code_simp

lemma truncate_le: "a \<le> of_int n \<Longrightarrow> truncate_rat a \<le> n"
proof (cases "0 \<le> a")
  case True
  assume "a \<le> of_int n"
  then have "\<lfloor>a\<rfloor> \<le> n" by (simp add: floor_le_iff)
  then show ?thesis using True by (simp add: truncate_rat_def)
next
  case False
  assume "a \<le> of_int n"
  then have "\<lceil>a\<rceil> \<le> n" by (simp add: ceiling_le_iff)
  then show ?thesis using False by (simp add: truncate_rat_def)
qed

lemma truncate_ge: "of_int n \<le> a \<Longrightarrow> n \<le> truncate_rat a"
proof (cases "0 \<le> a")
  case True
  assume "of_int n \<le> a"
  then have "n \<le> \<lfloor>a\<rfloor>" by (simp add: le_floor_iff)
  then show ?thesis using True by (simp add: truncate_rat_def)
next
  case False
  assume "of_int n \<le> a"
  then have "n \<le> \<lceil>a\<rceil>" by (simp add: le_ceiling_iff)
  then show ?thesis using False by (simp add: truncate_rat_def)
qed

lemma truncate_mono: "a \<le> b \<Longrightarrow> truncate_rat a \<le> truncate_rat b"
proof -
  assume ab: "a \<le> b"
  consider (pp) "0 \<le> a" "0 \<le> b" | (np) "a < 0" "0 \<le> b" | (nn) "a < 0" "b < 0"
    using ab by linarith
  then show ?thesis
  proof cases
    case pp
    then show ?thesis using floor_mono[OF ab] by (simp add: truncate_rat_def)
  next
    case np
    have "truncate_rat a \<le> 0" using np truncate_le[of a 0] by simp
    moreover have "0 \<le> truncate_rat b" using np truncate_ge[of 0 b] by simp
    ultimately show ?thesis by simp
  next
    case nn
    then show ?thesis using ceiling_mono[OF ab] by (simp add: truncate_rat_def)
  qed
qed

lemma int64_of_f64_fin:
  assumes "\<bar>a\<bar> \<le> of_int B" and "B < 2 ^ 63"
  shows "int64_of_f64 impl (Fin a) = truncate_rat a"
proof -
  have "- of_int B \<le> a" and "a \<le> of_int B" using assms(1) by simp_all
  then have "- B \<le> truncate_rat a" and "truncate_rat a \<le> B"
    using truncate_ge[of "- B" a] truncate_le[of a B] by simp_all
  then show ?thesis using assms(2) by (simp add: int64_of_f64_def truncate_rat_def Let_def)
qed

lemma recommit_raw_steps:
  assumes p: "\<bar>prev\<bar> \<le> 2 ^ 62" and u: "\<bar>u\<bar> \<le> 2 ^ 62 + 2 ^ 28"
  obtains pf a k n where
    "round_f64 (of_int prev) = Fin pf"
    "round_f64 (pf * (8106479329266893 / 9007199254740992)) = Fin a"
    "round_f64 (3602879701896397 / 36028797018963968 * u) = Fin k"
    "round_f64 (a + k) = Fin n"
    "recommit_raw prev (Fin u) = Fin n"
    "\<bar>n\<bar> \<le> 2 ^ 62 + 2 ^ 59 + 2 ^ 25"
proof -
  have "\<bar>rat_of_int prev\<bar> \<le> 2 ^ 62"
  proof -
    have "(of_int \<bar>prev\<bar> :: rat) \<le> of_int (2 ^ 62)" using p by (simp only: of_int_le_iff)
    then show ?thesis by simp
  qed
  from round_f64_within[OF exact_62 this]
  obtain pf where pf: "round_f64 (of_int prev) = Fin pf" and pfb: "\<bar>pf\<bar> \<le> 2 ^ 62" by blast
  have "\<bar>pf * (8106479329266893 / 9007199254740992)\<bar> \<le> 2 ^ 62"
  proof -
    have "\<bar>pf * (8106479329266893 / 9007199254740992)\<bar>
            = \<bar>pf\<bar> * (8106479329266893 / 9007199254740992)"
      by (simp add: abs_mult)
    also have "\<dots> \<le> \<bar>pf\<bar> * 1" by (intro mult_left_mono) simp_all
    finally show ?thesis using pfb by simp
  qed
  from round_f64_within[OF exact_62 this]
  obtain a where a: "round_f64 (pf * (8106479329266893 / 9007199254740992)) = Fin a"
    and ab: "\<bar>a\<bar> \<le> 2 ^ 62" by blast
  have "\<bar>3602879701896397 / 36028797018963968 * u\<bar> \<le> 2 ^ 59 + 2 ^ 25"
  proof -
    have "\<bar>3602879701896397 / 36028797018963968 * u\<bar>
            = (3602879701896397 / 36028797018963968) * \<bar>u\<bar>"
      by (simp add: abs_mult)
    also have "\<dots> \<le> (1 / 8) * \<bar>u\<bar>" by (intro mult_right_mono) simp_all
    also have "\<dots> \<le> (1 / 8) * (2 ^ 62 + 2 ^ 28)" using u by (intro mult_left_mono) simp_all
    finally show ?thesis by simp
  qed
  from round_f64_within[OF exact_59_25 this]
  obtain k where k: "round_f64 (3602879701896397 / 36028797018963968 * u) = Fin k"
    and kb: "\<bar>k\<bar> \<le> 2 ^ 59 + 2 ^ 25" by blast
  have "\<bar>a + k\<bar> \<le> 2 ^ 62 + 2 ^ 59 + 2 ^ 25" using ab kb by linarith
  from round_f64_within[OF exact_sum this]
  obtain n where n: "round_f64 (a + k) = Fin n" and nb: "\<bar>n\<bar> \<le> 2 ^ 62 + 2 ^ 59 + 2 ^ 25"
    by blast
  have raw: "recommit_raw prev (Fin u) = Fin n"
    by (simp only: recommit_raw_def f64_of_int_def pf c9_val c1_val fmul.simps a k fadd.simps n)
  show ?thesis by (rule that[OF pf a k n raw nb])
qed

lemma recommit_raw_mono:
  assumes p1: "\<bar>prev1\<bar> \<le> 2 ^ 62" and p2: "\<bar>prev2\<bar> \<le> 2 ^ 62" and le: "prev1 \<le> prev2"
    and u: "\<bar>u\<bar> \<le> 2 ^ 62 + 2 ^ 28"
    and r1: "recommit_raw prev1 (Fin u) = Fin n1" and r2: "recommit_raw prev2 (Fin u) = Fin n2"
  shows "n1 \<le> n2"
proof -
  obtain pf1 a1 k1 m1 where
    s1: "round_f64 (of_int prev1) = Fin pf1"
      "round_f64 (pf1 * (8106479329266893 / 9007199254740992)) = Fin a1"
      "round_f64 (3602879701896397 / 36028797018963968 * u) = Fin k1"
      "round_f64 (a1 + k1) = Fin m1" "recommit_raw prev1 (Fin u) = Fin m1"
      "\<bar>m1\<bar> \<le> 2 ^ 62 + 2 ^ 59 + 2 ^ 25"
    by (rule recommit_raw_steps[OF p1 u])
  obtain pf2 a2 k2 m2 where
    s2: "round_f64 (of_int prev2) = Fin pf2"
      "round_f64 (pf2 * (8106479329266893 / 9007199254740992)) = Fin a2"
      "round_f64 (3602879701896397 / 36028797018963968 * u) = Fin k2"
      "round_f64 (a2 + k2) = Fin m2" "recommit_raw prev2 (Fin u) = Fin m2"
      "\<bar>m2\<bar> \<le> 2 ^ 62 + 2 ^ 59 + 2 ^ 25"
    by (rule recommit_raw_steps[OF p2 u])
  have "rat_of_int prev1 \<le> of_int prev2" using le by simp
  then have "pf1 \<le> pf2" using s1(1) s2(1) by (rule round_f64_mono_fin)
  then have "pf1 * (8106479329266893 / 9007199254740992)
               \<le> pf2 * (8106479329266893 / 9007199254740992)"
    by (intro mult_right_mono) simp_all
  then have "a1 \<le> a2" using s1(2) s2(2) by (rule round_f64_mono_fin)
  moreover have "k1 = k2" using s1(3) s2(3) by simp
  ultimately have "a1 + k1 \<le> a2 + k2" by simp
  then have "m1 \<le> m2" using s1(4) s2(4) by (rule round_f64_mono_fin)
  then show ?thesis using s1(5) s2(5) r1 r2 by simp
qed

lemma target_plus_bias:
  assumes "\<bar>t\<bar> \<le> 2 ^ 62"
  obtains u v where "fadd (Fin t) intervalAdjustBias = Fin u" "\<bar>u\<bar> \<le> 2 ^ 62 + 2 ^ 28"
    "fsub (Fin t) intervalAdjustBias = Fin v" "\<bar>v\<bar> \<le> 2 ^ 62 + 2 ^ 28"
proof -
  have "\<bar>t + 200000000\<bar> \<le> 2 ^ 62 + 2 ^ 28" and "\<bar>t + - 200000000\<bar> \<le> 2 ^ 62 + 2 ^ 28"
    using assms by simp_all
  from round_f64_within[OF exact_62_28 this(1)] round_f64_within[OF exact_62_28 this(2)]
  obtain u v where "round_f64 (t + 200000000) = Fin u" "\<bar>u\<bar> \<le> 2 ^ 62 + 2 ^ 28"
    "round_f64 (t + - 200000000) = Fin v" "\<bar>v\<bar> \<le> 2 ^ 62 + 2 ^ 28"
    by blast
  then show ?thesis by (intro that[of u v]) (simp_all add: bias_val fsub_def)
qed

lemma recalcRecommit_inc:
  assumes p: "\<bar>prev\<bar> \<le> 2 ^ 62" and t: "\<bar>t\<bar> \<le> 2 ^ 62"
  shows "\<exists>n. recommit_raw prev (fadd (Fin t) intervalAdjustBias) = Fin n
             \<and> recalcRecommit impl m prev (Fin t) True = truncate_rat (min n 15000000000)"
proof -
  obtain u v where u: "fadd (Fin t) intervalAdjustBias = Fin u"
    and ub: "\<bar>u\<bar> \<le> 2 ^ 62 + 2 ^ 28"
    and "fsub (Fin t) intervalAdjustBias = Fin v" and "\<bar>v\<bar> \<le> 2 ^ 62 + 2 ^ 28"
    by (rule target_plus_bias[OF t])
  obtain pf a k n where "round_f64 (of_int prev) = Fin pf"
      "round_f64 (pf * (8106479329266893 / 9007199254740992)) = Fin a"
      "round_f64 (3602879701896397 / 36028797018963968 * u) = Fin k"
      "round_f64 (a + k) = Fin n"
    and n: "recommit_raw prev (Fin u) = Fin n"
    and nb: "\<bar>n\<bar> \<le> 2 ^ 62 + 2 ^ 59 + 2 ^ 25"
    by (rule recommit_raw_steps[OF p ub])
  have b: "\<bar>min n 15000000000\<bar> \<le> rat_of_int (2 ^ 62 + 2 ^ 59 + 2 ^ 25)"
  proof (cases "n \<le> 15000000000")
    case True
    then have "min n 15000000000 = n" by (simp add: min_def)
    then show ?thesis using nb by simp
  next
    case False
    then have "min n 15000000000 = 15000000000" by (simp add: min_def)
    then show ?thesis by simp
  qed
  have "recalcRecommit impl m prev (Fin t) True
          = int64_of_f64 impl (Fin (min n 15000000000))"
    using n by (simp add: recalcRecommit_def recommit_raw_def u max_val fgt_def min_def Let_def)
  also have "\<dots> = truncate_rat (min n 15000000000)"
    by (rule int64_of_f64_fin[OF b]) simp
  finally show ?thesis using n u by simp
qed

lemma recalcRecommit_dec:
  assumes p: "\<bar>prev\<bar> \<le> 2 ^ 62" and t: "\<bar>t\<bar> \<le> 2 ^ 62" and m: "0 \<le> m" "m \<le> 2 ^ 53"
  shows "\<exists>n. recommit_raw prev (fsub (Fin t) intervalAdjustBias) = Fin n
             \<and> recalcRecommit impl m prev (Fin t) False = truncate_rat (max n (of_int m))"
proof -
  obtain u v where "fadd (Fin t) intervalAdjustBias = Fin u"
    and "\<bar>u\<bar> \<le> 2 ^ 62 + 2 ^ 28"
    and v: "fsub (Fin t) intervalAdjustBias = Fin v" and vb: "\<bar>v\<bar> \<le> 2 ^ 62 + 2 ^ 28"
    by (rule target_plus_bias[OF t])
  obtain pf a k n where "round_f64 (of_int prev) = Fin pf"
      "round_f64 (pf * (8106479329266893 / 9007199254740992)) = Fin a"
      "round_f64 (3602879701896397 / 36028797018963968 * v) = Fin k"
      "round_f64 (a + k) = Fin n"
    and n: "recommit_raw prev (Fin v) = Fin n"
    and nb: "\<bar>n\<bar> \<le> 2 ^ 62 + 2 ^ 59 + 2 ^ 25"
    by (rule recommit_raw_steps[OF p vb])
  have mf: "f64_of_int m = Fin (of_int m)"
    unfolding f64_of_int_def using m by (intro round_f64_int) simp
  have m53: "(of_int m :: rat) \<le> of_int (2 ^ 53)" and m0: "(0::rat) \<le> of_int m"
    using m by (simp_all only: of_int_le_iff of_int_0_le_iff)
  have b: "\<bar>max n (of_int m)\<bar> \<le> rat_of_int (2 ^ 62 + 2 ^ 59 + 2 ^ 25)"
  proof (cases "n \<le> of_int m")
    case True
    then have "\<bar>max n (of_int m)\<bar> = of_int m" using m0 by (simp add: max_def)
    also have "\<dots> \<le> of_int (2 ^ 53)" by (rule m53)
    also have "\<dots> \<le> rat_of_int (2 ^ 62 + 2 ^ 59 + 2 ^ 25)" by simp
    finally show ?thesis .
  next
    case False
    then have "max n (of_int m) = n" by (simp add: max_def)
    then show ?thesis using nb by simp
  qed
  have "recalcRecommit impl m prev (Fin t) False
          = int64_of_f64 impl (Fin (max n (of_int m)))"
    using n by (simp add: recalcRecommit_def recommit_raw_def v mf max_def Let_def)
  also have "\<dots> = truncate_rat (max n (of_int m))"
    by (rule int64_of_f64_fin[OF b]) simp
  finally show ?thesis using n v by simp
qed


subsection \<open>What the controller guarantees\<close>

text \<open>
  Claim C4, as stated, fails on both sides of the interval. With \<open>inc\<close> set nothing
  keeps the result above \<open>minRecommit\<close>: from \<open>prev = 0\<close> and \<open>target = 0\<close> the result is 20 ms,
  below a \<open>minRecommit\<close> of 1 s. Without \<open>inc\<close> nothing keeps it below 15 s: once the user
  has set the interval to 100 s, a decrease leaves it at 100 s.
\<close>

theorem recalcRecommit_range_counterexample:
  "recalcRecommit amd64 1000000000 0 (Fin 0) True = 20000000
   \<and> \<not> 1000000000 \<le> (20000000::int)
   \<and> on_resubmitAdjust amd64 \<lparr>ratio = Fin 0, inc = False\<rparr>
         (on_resubmitInterval 100000000000 (1000000000, 1000000000))
       = (100000000000, 100000000000)
   \<and> \<not> 100000000000 \<le> maxRecommitInterval"
  by code_simp

text \<open>
  Claim C4, amended. For intervals and targets of at most \<open>2\<^sup>6\<^sup>2\<close> ns and a \<open>minRecommit\<close>
  between 0 and \<open>2\<^sup>5\<^sup>3\<close> ns, \<^verbatim>\<open>recalcRecommit\<close> is monotone in \<open>prev\<close>; with \<open>inc\<close> set
  the result is at most \<^verbatim>\<open>maxRecommitInterval\<close>, and without it the result is at least
  \<open>minRecommit\<close>.
\<close>

theorem recalcRecommit_monotone_one_sided:
  assumes "\<bar>prev1\<bar> \<le> 2 ^ 62" and "\<bar>prev2\<bar> \<le> 2 ^ 62" and "prev1 \<le> prev2"
    and "\<bar>t\<bar> \<le> 2 ^ 62" and "0 \<le> minRecommit" and "minRecommit \<le> 2 ^ 53"
  shows "recalcRecommit impl minRecommit prev1 (Fin t) incr
           \<le> recalcRecommit impl minRecommit prev2 (Fin t) incr
         \<and> recalcRecommit impl minRecommit prev1 (Fin t) True \<le> maxRecommitInterval
         \<and> minRecommit \<le> recalcRecommit impl minRecommit prev1 (Fin t) False"
proof -
  obtain u v where
    u: "fadd (Fin t) intervalAdjustBias = Fin u" "\<bar>u\<bar> \<le> 2 ^ 62 + 2 ^ 28"
    and v: "fsub (Fin t) intervalAdjustBias = Fin v" "\<bar>v\<bar> \<le> 2 ^ 62 + 2 ^ 28"
    by (rule target_plus_bias[OF assms(4)])
  from recalcRecommit_inc[OF assms(1,4), of impl minRecommit] obtain i1 where
    i1: "recommit_raw prev1 (Fin u) = Fin i1"
      "recalcRecommit impl minRecommit prev1 (Fin t) True = truncate_rat (min i1 15000000000)"
    unfolding u by blast
  from recalcRecommit_inc[OF assms(2,4), of impl minRecommit] obtain i2 where
    i2: "recommit_raw prev2 (Fin u) = Fin i2"
      "recalcRecommit impl minRecommit prev2 (Fin t) True = truncate_rat (min i2 15000000000)"
    unfolding u by blast
  from recalcRecommit_dec[OF assms(1,4,5,6), of impl] obtain d1 where
    d1: "recommit_raw prev1 (Fin v) = Fin d1"
      "recalcRecommit impl minRecommit prev1 (Fin t) False
         = truncate_rat (max d1 (of_int minRecommit))"
    unfolding v by blast
  from recalcRecommit_dec[OF assms(2,4,5,6), of impl] obtain d2 where
    d2: "recommit_raw prev2 (Fin v) = Fin d2"
      "recalcRecommit impl minRecommit prev2 (Fin t) False
         = truncate_rat (max d2 (of_int minRecommit))"
    unfolding v by blast
  have "i1 \<le> i2" by (rule recommit_raw_mono[OF assms(1,2,3) u(2) i1(1) i2(1)])
  then have mi: "truncate_rat (min i1 15000000000) \<le> truncate_rat (min i2 15000000000)"
    by (intro truncate_mono) (simp add: min_def)
  have "d1 \<le> d2" by (rule recommit_raw_mono[OF assms(1,2,3) v(2) d1(1) d2(1)])
  then have md: "truncate_rat (max d1 (of_int minRecommit))
                   \<le> truncate_rat (max d2 (of_int minRecommit))"
    by (intro truncate_mono) (simp add: max_def)
  have ub: "truncate_rat (min i1 15000000000) \<le> 15000000000"
    by (rule truncate_le) simp
  have lb: "minRecommit \<le> truncate_rat (max d1 (of_int minRecommit))"
    by (rule truncate_ge) simp
  show ?thesis
    using mi md ub lb
    by (cases incr) (simp_all add: i1(2) i2(2) d1(2) d2(2) maxRecommitInterval_def second_def)
qed

theorem recalcRecommit_monotone_one_sided_witness:
  "recalcRecommit amd64 1000000000 3000000000 (Fin 15000000000) True
     \<le> recalcRecommit amd64 1000000000 4000000000 (Fin 15000000000) True
   \<and> recalcRecommit amd64 1000000000 3000000000 (Fin 15000000000) True \<le> maxRecommitInterval
   \<and> 1000000000 \<le> recalcRecommit amd64 1000000000 3000000000 (Fin 15000000000) False"
  using recalcRecommit_monotone_one_sided [of 3000000000 4000000000 15000000000 1000000000
      amd64 True]
  by simp

lemma on_resubmitAdjust_spec:
  "inc adjust \<Longrightarrow>
     on_resubmitAdjust impl adjust (minRecommit, recommit)
       = (minRecommit, int64_of_f64 impl (spec_increase recommit (ratio adjust)))"
  by (simp add: on_resubmitAdjust_def recalcRecommit_def spec_increase_def Let_def
      intervalAdjustRatio_def intervalAdjustBias_def maxRecommitInterval_def second_def)

lemma increase_clamped:
  assumes p: "\<bar>recommit\<bar> \<le> 2 ^ 53" and r: "1 / 10 \<le> r"
  shows "recalcRecommit impl minRecommit recommit (fdiv (f64_of_int recommit) (Fin r)) True
           \<le> maxRecommitInterval"
proof -
  have pf: "f64_of_int recommit = Fin (of_int recommit)"
    unfolding f64_of_int_def by (rule round_f64_int[OF p])
  have "(of_int \<bar>recommit\<bar> :: rat) \<le> of_int (2 ^ 53)" using p by (simp only: of_int_le_iff)
  then have pb: "\<bar>rat_of_int recommit\<bar> \<le> 2 ^ 53" by simp
  have r0: "0 < r" using r by simp
  have "\<bar>rat_of_int recommit / r\<bar> = \<bar>rat_of_int recommit\<bar> / r" using r0 by simp
  also have "\<dots> \<le> \<bar>rat_of_int recommit\<bar> / (1 / 10)"
    using r by (intro divide_left_mono) simp_all
  also have "\<dots> \<le> 2 ^ 62" using pb by simp
  finally have "\<bar>rat_of_int recommit / r\<bar> \<le> 2 ^ 62" .
  from round_f64_within[OF exact_62 this]
  obtain t where t: "round_f64 (rat_of_int recommit / r) = Fin t" and tb: "\<bar>t\<bar> \<le> 2 ^ 62"
    by blast
  have tg: "fdiv (f64_of_int recommit) (Fin r) = Fin t" using r0 by (simp add: pf t)
  have p62: "\<bar>recommit\<bar> \<le> 2 ^ 62" using p by simp
  from recalcRecommit_inc[OF p62 tb, of impl minRecommit]
  obtain n where "recalcRecommit impl minRecommit recommit (Fin t) True
                    = truncate_rat (min n 15000000000)" by blast
  moreover have "truncate_rat (min n 15000000000) \<le> 15000000000"
    by (rule truncate_le) simp
  ultimately show ?thesis by (simp add: tg maxRecommitInterval_def second_def)
qed

text \<open>
  Claim C5. On a feedback message with \<open>inc\<close> set, \<^verbatim>\<open>newWorkLoop\<close> leaves \<open>minRecommit\<close>
  as it is and makes the interval the value of
  \<open>recommit\<sqdot>(1 - 0.1) + 0.1\<sqdot>(recommit / ratio + 200 ms)\<close>, clamped above at 15 s, computed
  in \<^verbatim>\<open>float64\<close> and converted to whole nanoseconds; for a ratio of at least 0.1 and an
  interval of at most \<open>2\<^sup>5\<^sup>3\<close> ns the new interval is at most 15 s.
\<close>

theorem resubmit_increase:
  assumes "inc adjust"
  shows "on_resubmitAdjust impl adjust (minRecommit, recommit)
       = (minRecommit, int64_of_f64 impl (spec_increase recommit (ratio adjust)))
     \<and> (\<forall>r. ratio adjust = Fin r \<and> 1 / 10 \<le> r \<and> \<bar>recommit\<bar> \<le> 2 ^ 53 \<longrightarrow>
           snd (on_resubmitAdjust impl adjust (minRecommit, recommit)) \<le> maxRecommitInterval)"
proof (intro conjI allI impI)
  show "on_resubmitAdjust impl adjust (minRecommit, recommit)
       = (minRecommit, int64_of_f64 impl (spec_increase recommit (ratio adjust)))"
    by (rule on_resubmitAdjust_spec[OF assms])
next
  fix r
  assume h: "ratio adjust = Fin r \<and> 1 / 10 \<le> r \<and> \<bar>recommit\<bar> \<le> 2 ^ 53"
  have "snd (on_resubmitAdjust impl adjust (minRecommit, recommit))
          = recalcRecommit impl minRecommit recommit (fdiv (f64_of_int recommit) (Fin r)) True"
    using assms h by (simp add: on_resubmitAdjust_def Let_def)
  also have "\<dots> \<le> maxRecommitInterval"
    using h by (intro increase_clamped) simp_all
  finally show "snd (on_resubmitAdjust impl adjust (minRecommit, recommit))
                  \<le> maxRecommitInterval" .
qed

text \<open>
  The third scenario of the specification: from an interval of 3 s and a ratio of 0.2 the
  new interval is 4.22 s, which is \<open>3\<sqdot>0.9 + 0.1\<sqdot>(15 + 0.2)\<close> seconds exactly.
\<close>

theorem resubmit_increase_witness:
  "inc \<lparr>ratio = round_f64 (1 / 5), inc = True\<rparr>
   \<and> on_resubmitAdjust amd64 \<lparr>ratio = round_f64 (1 / 5), inc = True\<rparr> (1000000000, 3000000000)
       = (1000000000, 4220000000)
   \<and> rat_of_int 4220000000 = (3 * (1 - 1 / 10) + 1 / 10 * (15 + 1 / 5)) * 1000000000"
proof -
  have e: "int64_of_f64 amd64 (spec_increase 3000000000 (round_f64 (1 / 5))) = 4220000000"
    by code_simp
  show ?thesis
    using resubmit_increase [of "\<lparr>ratio = round_f64 (1 / 5), inc = True\<rparr>" amd64
        1000000000 3000000000]
    by (simp add: e)
qed

end
